theory Spec2Isabelle
  imports Complex_Main "HOL-Library.Multiset"
begin

section \<open>Data model\<close>

text \<open>
  The repository holds two near-identical versions of one Vue component,
  \<^verbatim>\<open>src/components/PhotoTimeline.vue\<close> (called the first implementation below) and a
  later revision with a preset "seasons" mode (the second implementation). Both keep
  the whole session in module-level refs; the model gathers these refs in one record
  and every handler becomes a function from state to state.

  A JavaScript \<^verbatim>\<open>Date\<close> is modelled by its time value in milliseconds (an \<^typ>\<open>int\<close>),
  which is what \<^verbatim>\<open>>=\<close> compares. Numbers that only ever hold integers
  (\<^verbatim>\<open>score\<close>, \<^verbatim>\<open>timeLeft\<close>, the level table) are \<^typ>\<open>int\<close> or \<^typ>\<open>nat\<close>; a photo id
  (\<^verbatim>\<open>Date.now() + Math.random()\<close>) is a \<^typ>\<open>rat\<close>.
\<close>

record File =
  fname :: string
  ftype :: string

text \<open>
  What the external collaborators answer for one selected file: \<^verbatim>\<open>exifr.parse\<close> rejects,
  resolves to \<^verbatim>\<open>undefined\<close>, or resolves to an object whose \<^verbatim>\<open>DateTimeOriginal\<close> may be
  absent; \<^verbatim>\<open>new Date()\<close> read while the file is processed; the preview step (\<^verbatim>\<open>None\<close>
  when it rejects); \<^verbatim>\<open>URL.createObjectURL\<close>; and \<^verbatim>\<open>Date.now() + Math.random()\<close>.
  The preview promise is taken to settle: an image that never loads would leave it,
  and the handler awaiting it, pending for ever, and that case is outside the model.
\<close>

datatype exif_result = ParseRejects | NoExif | ExifData "int option"

record source =
  handle :: File
  exifr_parse :: exif_result
  new_Date :: int
  preview :: "string option"
  createObjectURL :: string
  fresh_id :: rat

record photo =
  photo_id :: rat
  "file" :: File
  url :: string
  date :: int
  thumbnail :: "string option"

text \<open>The display strings \<^verbatim>\<open>name\<close> and \<^verbatim>\<open>description\<close> of a level are left out.\<close>

record level =
  requiredPhotos :: nat
  timeLimit :: int
  points :: int

definition levels :: "level list" where
  "levels =
    [\<lparr>requiredPhotos = 3, timeLimit = 60, points = 100\<rparr>,
     \<lparr>requiredPhotos = 4, timeLimit = 50, points = 200\<rparr>,
     \<lparr>requiredPhotos = 5, timeLimit = 45, points = 300\<rparr>,
     \<lparr>requiredPhotos = 6, timeLimit = 40, points = 400\<rparr>,
     \<lparr>requiredPhotos = 7, timeLimit = 35, points = 500\<rparr>]"

datatype gameMode = Custom | Seasons

text \<open>
  A call of \<^verbatim>\<open>alert\<close> is recorded in a log: time up (level index and total score in the
  message), wrong order, all levels done (total score in the message).
\<close>

datatype alert = TimeUp nat int | WrongOrder | AllLevelsDone int

text \<open>Reading a property of \<^verbatim>\<open>levels[currentLevel]\<close> when the index is out of range throws.\<close>

datatype error = TypeError

text \<open>
  The refs of the component, followed by the part of the browser the handlers act on:
  the interval handles currently scheduled, the last handle \<^verbatim>\<open>setInterval\<close> issued
  (handles are positive), and the alerts shown so far.
\<close>

record state =
  photos :: "photo list"
  isLoading :: bool
  currentLevel :: nat
  score :: int
  timeLeft :: int
  gameStarted :: bool
  timerInterval :: "nat option"
  selectedFiles :: "source list option"
  showLevelComplete :: bool
  levelScore :: int
  timeBonus :: int
  gameMode :: gameMode
  intervals :: "nat list"
  lastHandle :: nat
  alerts :: "alert list"

definition initial :: state where
  "initial = \<lparr>photos = [], isLoading = False, currentLevel = 0, score = 0, timeLeft = 0,
     gameStarted = False, timerInterval = None, selectedFiles = None,
     showLevelComplete = False, levelScore = 0, timeBonus = 0, gameMode = Custom,
     intervals = [], lastHandle = 0, alerts = []\<rparr>"

definition currentLevelData :: "state \<Rightarrow> level option" where
  "currentLevelData s =
     (if currentLevel s < length levels then Some (levels ! currentLevel s) else None)"

section \<open>Timer\<close>

definition truthy :: "nat option \<Rightarrow> bool" where
  "truthy h = (case h of None \<Rightarrow> False | Some i \<Rightarrow> i \<noteq> 0)"

definition clearInterval :: "nat option \<Rightarrow> state \<Rightarrow> state" where
  "clearInterval h s =
     (case h of None \<Rightarrow> s | Some i \<Rightarrow> s\<lparr>intervals := removeAll i (intervals s)\<rparr>)"

definition setInterval :: "state \<Rightarrow> nat \<times> state" where
  "setInterval s =
     (let i = Suc (lastHandle s) in (i, s\<lparr>intervals := i # intervals s, lastHandle := i\<rparr>))"

text \<open>
  The second implementation also revokes the object URL of every photo before it empties
  the list; URLs are not part of the model, so both versions of \<^verbatim>\<open>resetLevel\<close> are this
  function.
\<close>

definition resetLevel :: "state \<Rightarrow> state" where
  "resetLevel s =
     (let s1 = s\<lparr>photos := []\<rparr>;
          s2 = (if truthy (timerInterval s1) then clearInterval (timerInterval s1) s1 else s1)
      in s2\<lparr>timeLeft := 0, gameStarted := False, showLevelComplete := False,
             selectedFiles := None\<rparr>)"

definition showGameOver :: "state \<Rightarrow> error + state" where
  "showGameOver s =
     (case currentLevelData s of
        None \<Rightarrow> Inl TypeError
      | Some lv \<Rightarrow> Inr (resetLevel (s\<lparr>alerts := alerts s @ [TimeUp (currentLevel s) (score s)]\<rparr>)))"

definition startTimer :: "state \<Rightarrow> error + state" where
  "startTimer s =
     (let s1 = (if truthy (timerInterval s) then clearInterval (timerInterval s) s else s)
      in case currentLevelData s1 of
           None \<Rightarrow> Inl TypeError
         | Some lv \<Rightarrow>
             (let s2 = s1\<lparr>timeLeft := timeLimit lv\<rparr>;
                  (i, s3) = setInterval s2
              in Inr (s3\<lparr>timerInterval := Some i\<rparr>)))"

text \<open>The callback that \<^verbatim>\<open>startTimer\<close> hands to \<^verbatim>\<open>setInterval\<close>.\<close>

definition timerCallback :: "state \<Rightarrow> error + state" where
  "timerCallback s =
     (if timeLeft s > 0 then Inr (s\<lparr>timeLeft := timeLeft s - 1\<rparr>)
      else showGameOver (clearInterval (timerInterval s) s))"

text \<open>One second passes for the interval \<open>h\<close>: the browser runs the callback only while
  the interval is scheduled.\<close>

definition tick :: "nat \<Rightarrow> state \<Rightarrow> error + state" where
  "tick h s = (if h \<in> set (intervals s) then timerCallback s else Inr s)"

fun ticks :: "nat \<Rightarrow> nat \<Rightarrow> state \<Rightarrow> error + state" where
  "ticks h 0 s = Inr s"
| "ticks h (Suc n) s = (case tick h s of Inl e \<Rightarrow> Inl e | Inr s' \<Rightarrow> ticks h n s')"

text \<open>The number of time-up alerts shown so far.\<close>

fun isTimeUp :: "alert \<Rightarrow> bool" where
  "isTimeUp (TimeUp l p) = True"
| "isTimeUp WrongOrder = False"
| "isTimeUp (AllLevelsDone p) = False"

definition timeouts :: "state \<Rightarrow> nat" where
  "timeouts s = length (filter isTimeUp (alerts s))"

text \<open>
  Every interval the browser still has scheduled is the one whose handle the session
  holds in \<^verbatim>\<open>timerInterval\<close>. It holds initially and every handler keeps it (proved in
  the last section), since \<^verbatim>\<open>startTimer\<close> is the only caller of \<^verbatim>\<open>setInterval\<close> and
  clears the old handle first.
\<close>

definition oneTimer :: "state \<Rightarrow> bool" where
  "oneTimer s = list_all (\<lambda>h. timerInterval s = Some h \<and> 0 < h) (intervals s)"

section \<open>Validation and scoring\<close>

text \<open>\<^verbatim>\<open>Array.prototype.every\<close> with the index passed to the callback.\<close>

fun every :: "('a \<Rightarrow> nat \<Rightarrow> bool) \<Rightarrow> 'a list \<Rightarrow> nat \<Rightarrow> bool" where
  "every f [] index = True"
| "every f (x # xs) index = (if f x index then every f xs (Suc index) else False)"

definition isCorrect :: "photo list \<Rightarrow> bool" where
  "isCorrect ps =
     every (\<lambda>photo index. if index = 0 then True else date photo \<ge> date (ps ! (index - 1))) ps 0"

definition Math_floor :: "rat \<Rightarrow> int" where
  "Math_floor x = \<lfloor>x\<rfloor>"

definition checkOrder :: "state \<Rightarrow> error + state" where
  "checkOrder s =
     (if isCorrect (photos s) then
        (let s1 = s\<lparr>timeBonus := Math_floor (of_int (timeLeft s) * 2)\<rparr>
         in case currentLevelData s1 of
              None \<Rightarrow> Inl TypeError
            | Some lv \<Rightarrow>
                (let s2 = s1\<lparr>levelScore := points lv + timeBonus s1\<rparr>;
                     s3 = s2\<lparr>score := score s2 + levelScore s2\<rparr>;
                     s4 = clearInterval (timerInterval s3) s3
                 in Inr (s4\<lparr>showLevelComplete := True\<rparr>)))
      else Inr (resetLevel (s\<lparr>alerts := alerts s @ [WrongOrder]\<rparr>)))"

section \<open>Ordering store\<close>

text \<open>
  Drag reordering: the template binds the list with \<^verbatim>\<open>v-model="photos"\<close> on the
  \<^verbatim>\<open>draggable\<close> component, so the array the component emits is assigned to the ref.
  The component is a library outside the repository; with a single list and no group it
  emits the bound list with one element moved.
\<close>

definition v_model_photos :: "photo list \<Rightarrow> state \<Rightarrow> state" where
  "v_model_photos newValue s = s\<lparr>photos := newValue\<rparr>"

section \<open>Ingestion, first implementation\<close>

text \<open>The filter callback \<^verbatim>\<open>file => file.type.startsWith('image/')\<close>.\<close>

definition image_typed :: "source \<Rightarrow> bool" where
  "image_typed f = (take 6 (ftype (handle f)) = ''image/'')"

text \<open>
  \<^verbatim>\<open>optimizeImage\<close>: \<open>None\<close> stands for a rejected promise. A \<^verbatim>\<open>Date\<close> object is
  truthy, so \<^verbatim>\<open>exifData?.DateTimeOriginal || new Date()\<close> falls back exactly when there
  is no EXIF object or the field is absent.
\<close>

definition optimizeImage :: "source \<Rightarrow> (string \<times> int) option" where
  "optimizeImage f =
     (case exifr_parse f of
        ParseRejects \<Rightarrow> None
      | NoExif \<Rightarrow> map_option (\<lambda>u. (u, new_Date f)) (preview f)
      | ExifData None \<Rightarrow> map_option (\<lambda>u. (u, new_Date f)) (preview f)
      | ExifData (Some d) \<Rightarrow> map_option (\<lambda>u. (u, d)) (preview f))"

text \<open>The callback of \<^verbatim>\<open>batch.map\<close>; \<open>None\<close> is the \<^verbatim>\<open>null\<close> of its \<^verbatim>\<open>catch\<close> branch.\<close>

definition processFile :: "source \<Rightarrow> photo option" where
  "processFile f =
     (case optimizeImage f of
        None \<Rightarrow> None
      | Some (u, d) \<Rightarrow>
          Some \<lparr>photo_id = fresh_id f, file = handle f, url = u, date = d, thumbnail = None\<rparr>)"

definition BATCH_SIZE :: nat where
  "BATCH_SIZE = 2"

function batches :: "nat \<Rightarrow> source list \<Rightarrow> photo list \<Rightarrow> photo list" where
  "batches i levelFiles acc =
     (if i < length levelFiles then
        batches (i + BATCH_SIZE) levelFiles
          (acc @ List.map_filter processFile (take BATCH_SIZE (drop i levelFiles)))
      else acc)"
  by pat_completeness auto
termination
  by (relation "measure (\<lambda>(i, levelFiles, acc). length levelFiles - i)")
     (auto simp: BATCH_SIZE_def)

text \<open>
  The parameter \<open>sort_random\<close> is the reordering that
  \<^verbatim>\<open>.sort(() => Math.random() - 0.5)\<close> produces. When \<^verbatim>\<open>selectedFiles\<close> is
  \<^verbatim>\<open>null\<close> the function returns at once.
\<close>

text \<open>The local constant \<^verbatim>\<open>levelFiles\<close> of \<^verbatim>\<open>loadPhotosForCurrentLevel\<close>.\<close>

definition levelFiles ::
    "(source list \<Rightarrow> source list) \<Rightarrow> level \<Rightarrow> source list \<Rightarrow> source list" where
  "levelFiles sort_random lv files =
     (let shuffledFiles =
            sort_random (filter image_typed files)
      in take (requiredPhotos lv) shuffledFiles)"

definition loadPhotosForCurrentLevel ::
    "(source list \<Rightarrow> source list) \<Rightarrow> state \<Rightarrow> error + state" where
  "loadPhotosForCurrentLevel sort_random s =
     (case selectedFiles s of
        None \<Rightarrow> Inr s
      | Some files \<Rightarrow>
          (let s1 = s\<lparr>isLoading := True, photos := []\<rparr>
           in case currentLevelData s1 of
                None \<Rightarrow> Inl TypeError
              | Some lv \<Rightarrow>
                  (let s2 = s1\<lparr>photos :=
                              batches 0 (levelFiles sort_random lv files) (photos s1)\<rparr>
                   in if length (photos s2) = requiredPhotos lv \<and> \<not> gameStarted s2 then
                        (case startTimer (s2\<lparr>gameStarted := True\<rparr>) of
                           Inl e \<Rightarrow> Inl e
                         | Inr s3 \<Rightarrow> Inr (s3\<lparr>isLoading := False\<rparr>))
                      else Inr (s2\<lparr>isLoading := False\<rparr>))))"

definition handleFolderSelect ::
    "(source list \<Rightarrow> source list) \<Rightarrow> source list \<Rightarrow> state \<Rightarrow> error + state" where
  "handleFolderSelect sort_random files s =
     (if files = [] then Inr s
      else loadPhotosForCurrentLevel sort_random (s\<lparr>selectedFiles := Some files\<rparr>))"

section \<open>Ingestion, second implementation\<close>

text \<open>The body of the \<^verbatim>\<open>for\<close> loop; \<open>None\<close> when its \<^verbatim>\<open>catch\<close> branch is taken.\<close>

definition processFile_2 :: "source \<Rightarrow> photo option" where
  "processFile_2 f =
     (case exifr_parse f of
        ParseRejects \<Rightarrow> None
      | NoExif \<Rightarrow>
          map_option (\<lambda>t. \<lparr>photo_id = fresh_id f, file = handle f, url = createObjectURL f,
             date = new_Date f, thumbnail = Some t\<rparr>) (preview f)
      | ExifData None \<Rightarrow>
          map_option (\<lambda>t. \<lparr>photo_id = fresh_id f, file = handle f, url = createObjectURL f,
             date = new_Date f, thumbnail = Some t\<rparr>) (preview f)
      | ExifData (Some d) \<Rightarrow>
          map_option (\<lambda>t. \<lparr>photo_id = fresh_id f, file = handle f, url = createObjectURL f,
             date = d, thumbnail = Some t\<rparr>) (preview f))"

fun processFiles :: "source list \<Rightarrow> photo list \<Rightarrow> photo list" where
  "processFiles [] acc = acc"
| "processFiles (f # fs) acc =
     processFiles fs (case processFile_2 f of None \<Rightarrow> acc | Some p \<Rightarrow> acc @ [p])"

text \<open>The local constant \<^verbatim>\<open>selectedFiles\<close> of \<^verbatim>\<open>handleFileSelect\<close>.\<close>

definition selectedFiles_2 :: "level \<Rightarrow> source list \<Rightarrow> source list" where
  "selectedFiles_2 lv files = take (requiredPhotos lv) files"

definition handleFileSelect :: "source list \<Rightarrow> state \<Rightarrow> error + state" where
  "handleFileSelect files s =
     (if files = [] then Inr s
      else
        (let s1 = s\<lparr>isLoading := True, photos := []\<rparr>
         in case currentLevelData s1 of
              None \<Rightarrow> Inl TypeError
            | Some lv \<Rightarrow>
                (let s2 = s1\<lparr>photos := processFiles (selectedFiles_2 lv files) (photos s1)\<rparr>
                 in if length (photos s2) = requiredPhotos lv \<and> \<not> gameStarted s2 then
                      (case startTimer (s2\<lparr>gameStarted := True\<rparr>) of
                         Inl e \<Rightarrow> Inl e
                       | Inr s3 \<Rightarrow> Inr (s3\<lparr>isLoading := False\<rparr>))
                    else Inr (s2\<lparr>isLoading := False\<rparr>))))"

text \<open>
  The preset data set: url and time value of \<^verbatim>\<open>new Date('2023-12-21')\<close>,
  \<^verbatim>\<open>'2023-03-21'\<close>, \<^verbatim>\<open>'2023-06-21'\<close>, \<^verbatim>\<open>'2023-09-21'\<close> (UTC midnight, in milliseconds).
\<close>

definition seasonImages :: "(string \<times> int) list" where
  "seasonImages =
    [(''https://images.unsplash.com/photo-1418985991508-e47386d96a71'', 1703116800000),
     (''https://images.unsplash.com/photo-1486944670663-93fc84a4e1fa'', 1679356800000),
     (''https://images.unsplash.com/photo-1473496169904-658ba7c44d8a'', 1687305600000),
     (''https://images.unsplash.com/photo-1507371341959-585a53d43f53'', 1695254400000)]"

text \<open>The decimal digit of an index below ten, for the file name \<^verbatim>\<open>season-${index}.jpg\<close>.\<close>

definition digit :: "nat \<Rightarrow> string" where
  "digit n = [char_of (48 + n)]"

text \<open>The array \<^verbatim>\<open>seasonImages.map((img, index) => ...)\<close> that \<^verbatim>\<open>startSeasonMode\<close> builds.\<close>

definition seasonPhotos :: "photo list" where
  "seasonPhotos =
     map (\<lambda>(index, img).
            \<lparr>photo_id = of_nat index,
             file = \<lparr>fname = ''season-'' @ digit index @ ''.jpg'', ftype = []\<rparr>,
             url = fst img, date = snd img, thumbnail = Some (fst img)\<rparr>)
         (zip [0 ..< length seasonImages] seasonImages)"

definition startSeasonMode :: "state \<Rightarrow> error + state" where
  "startSeasonMode s =
     (let s1 = s\<lparr>gameMode := Seasons\<rparr>;
          s2 = s1\<lparr>photos := seasonPhotos\<rparr>;
          s3 = s2\<lparr>gameStarted := True\<rparr>
      in startTimer s3)"

definition startCustomMode :: "state \<Rightarrow> state" where
  "startCustomMode s = resetLevel (s\<lparr>gameMode := Custom\<rparr>)"

section \<open>Level progression\<close>

text \<open>
  First implementation. The call of \<^verbatim>\<open>loadPhotosForCurrentLevel\<close> is not awaited, so a
  rejection of its promise does not reach \<^verbatim>\<open>nextLevel\<close>.
\<close>

definition nextLevel :: "(source list \<Rightarrow> source list) \<Rightarrow> state \<Rightarrow> state" where
  "nextLevel sort_random s =
     (let s' =
        (if int (currentLevel s) < int (length levels) - 1 then
           (let s1 = s\<lparr>currentLevel := currentLevel s + 1\<rparr>;
                s2 = resetLevel s1
            in case loadPhotosForCurrentLevel sort_random s2 of
                 Inl e \<Rightarrow> s2
               | Inr s3 \<Rightarrow> s3)
         else
           (let s1 = s\<lparr>alerts := alerts s @ [AllLevelsDone (score s)]\<rparr>;
                s2 = s1\<lparr>currentLevel := 0\<rparr>;
                s3 = s2\<lparr>score := 0\<rparr>
            in resetLevel s3))
      in s'\<lparr>showLevelComplete := False\<rparr>)"

text \<open>Second implementation.\<close>

definition nextLevel_2 :: "state \<Rightarrow> state" where
  "nextLevel_2 s =
     (let s' =
        (if int (currentLevel s) < int (length levels) - 1 then
           (let s1 = s\<lparr>currentLevel := currentLevel s + 1\<rparr> in resetLevel s1)
         else
           (let s1 = s\<lparr>alerts := alerts s @ [AllLevelsDone (score s)]\<rparr>;
                s2 = s1\<lparr>currentLevel := 0\<rparr>;
                s3 = s2\<lparr>score := 0\<rparr>
            in resetLevel s3))
      in s'\<lparr>showLevelComplete := False\<rparr>)"

section \<open>When the check button is shown\<close>

text \<open>The \<^verbatim>\<open>v-if\<close> of the check button in the first and in the second implementation.\<close>

definition checkButton :: "state \<Rightarrow> bool option" where
  "checkButton s =
     (case currentLevelData s of
        None \<Rightarrow> None
      | Some lv \<Rightarrow> Some (length (photos s) = requiredPhotos lv))"

definition checkButton_2 :: "state \<Rightarrow> bool" where
  "checkButton_2 s = (length (photos s) > 0)"

section \<open>Sample data\<close>

definition dated :: "rat \<Rightarrow> int \<Rightarrow> photo" where
  "dated i d =
     \<lparr>photo_id = i, file = \<lparr>fname = [], ftype = []\<rparr>, url = [], date = d, thumbnail = None\<rparr>"

definition jpeg :: "exif_result \<Rightarrow> rat \<Rightarrow> source" where
  "jpeg r i =
     \<lparr>handle = \<lparr>fname = ''a.jpg'', ftype = ''image/jpeg''\<rparr>, exifr_parse = r, new_Date = 1700000000000,
      preview = Some ''data:image/jpeg;base64,'', createObjectURL = ''blob:a'', fresh_id = i\<rparr>"

definition textfile :: "rat \<Rightarrow> source" where
  "textfile i =
     \<lparr>handle = \<lparr>fname = ''a.txt'', ftype = ''text/plain''\<rparr>, exifr_parse = ParseRejects,
      new_Date = 1700000000000, preview = Some ''data:image/jpeg;base64,'',
      createObjectURL = ''blob:b'', fresh_id = i\<rparr>"

text \<open>The state in which \<^verbatim>\<open>startSeasonMode\<close> leaves the initial session.\<close>

definition playing :: state where
  "playing = initial\<lparr>gameMode := Seasons, photos := seasonPhotos, gameStarted := True,
             intervals := [1], timeLeft := 60, lastHandle := 1, timerInterval := Some 1\<rparr>"

section \<open>Facts about the sample data\<close>

lemma dated_date [simp]: "date (dated i d) = d"
  by (simp add: dated_def)

lemma seasonPhotos_dates:
  "map date seasonPhotos = [1703116800000, 1679356800000, 1687305600000, 1695254400000]"
  by (simp add: seasonPhotos_def seasonImages_def upt_conv_Cons)


lemma initial_level: "currentLevelData initial = Some (levels ! 0)"
  by (simp add: currentLevelData_def initial_def levels_def)

lemma level0: "requiredPhotos (levels ! 0) = 3" "\<not> gameStarted initial" "selectedFiles initial = None"
  "lastHandle initial = 0" "timerInterval initial = None" "intervals initial = []"
  by (simp_all add: levels_def initial_def)


lemma processFile_2_image [simp]:
  "processFile_2 (jpeg NoExif i) \<noteq> None"
  "processFile_2 (jpeg (ExifData x) i) \<noteq> None"
  "processFile_2 (jpeg ParseRejects i) = None"
  "processFile_2 (textfile i) = None"
  "photo_id (the (processFile_2 (jpeg NoExif i))) = i"
  "photo_id (the (processFile_2 (jpeg (ExifData x) i))) = i"
  by (cases x; simp add: processFile_2_def jpeg_def textfile_def)+

lemma processFile_image [simp]:
  "processFile (jpeg NoExif i) \<noteq> None"
  "processFile (jpeg (ExifData x) i) \<noteq> None"
  "processFile (jpeg ParseRejects i) = None"
  "photo_id (the (processFile (jpeg NoExif i))) = i"
  "photo_id (the (processFile (jpeg (ExifData x) i))) = i"
  by (cases x; simp add: processFile_def optimizeImage_def jpeg_def)+

lemma processFile_2_image_NoExif:
  "processFile_2 (jpeg NoExif i) =
     Some \<lparr>photo_id = i, file = \<lparr>fname = ''a.jpg'', ftype = ''image/jpeg''\<rparr>, url = ''blob:a'',
           date = 1700000000000, thumbnail = Some ''data:image/jpeg;base64,''\<rparr>"
  by (simp add: processFile_2_def jpeg_def)

lemma processFile_image_NoExif:
  "processFile (jpeg NoExif i) =
     Some \<lparr>photo_id = i, file = \<lparr>fname = ''a.jpg'', ftype = ''image/jpeg''\<rparr>,
           url = ''data:image/jpeg;base64,'', date = 1700000000000, thumbnail = None\<rparr>"
  by (simp add: processFile_def optimizeImage_def jpeg_def)

lemma image_typed_samples [simp]:
  "image_typed (jpeg x i)" "\<not> image_typed (textfile i)"
  by (simp_all add: image_typed_def jpeg_def textfile_def)

lemma jpeg_inject [simp]: "jpeg x i = jpeg y j \<longleftrightarrow> x = y \<and> i = j"
  by (auto simp add: jpeg_def)

section \<open>Properties of the order check\<close>

lemma every_nth: "every f xs k \<longleftrightarrow> (\<forall>i<length xs. f (xs ! i) (k + i))"
proof (induction xs arbitrary: k)
  case Nil
  then show ?case by simp
next
  case (Cons x xs)
  show ?case
    by (simp add: Cons.IH All_less_Suc2)
qed

lemma isCorrect_adjacent:
  "isCorrect ps \<longleftrightarrow> (\<forall>i. Suc i < length ps \<longrightarrow> date (ps ! Suc i) \<ge> date (ps ! i))"
proof -
  have "isCorrect ps \<longleftrightarrow> (\<forall>i<length ps. i = 0 \<or> date (ps ! i) \<ge> date (ps ! (i - 1)))"
    by (auto simp add: isCorrect_def every_nth)
  also have "\<dots> \<longleftrightarrow> (\<forall>i. Suc i < length ps \<longrightarrow> date (ps ! Suc i) \<ge> date (ps ! i))"
  proof
    assume h: "\<forall>i<length ps. i = 0 \<or> date (ps ! i) \<ge> date (ps ! (i - 1))"
    show "\<forall>i. Suc i < length ps \<longrightarrow> date (ps ! Suc i) \<ge> date (ps ! i)"
    proof (intro allI impI)
      fix i assume "Suc i < length ps"
      with h have "Suc i = 0 \<or> date (ps ! Suc i) \<ge> date (ps ! (Suc i - 1))" by blast
      then show "date (ps ! Suc i) \<ge> date (ps ! i)" by simp
    qed
  next
    assume h: "\<forall>i. Suc i < length ps \<longrightarrow> date (ps ! Suc i) \<ge> date (ps ! i)"
    show "\<forall>i<length ps. i = 0 \<or> date (ps ! i) \<ge> date (ps ! (i - 1))"
    proof (intro allI impI)
      fix i assume "i < length ps"
      show "i = 0 \<or> date (ps ! i) \<ge> date (ps ! (i - 1))"
      proof (cases i)
        case 0
        then show ?thesis by simp
      next
        case (Suc j)
        with \<open>i < length ps\<close> h have "date (ps ! Suc j) \<ge> date (ps ! j)" by blast
        with Suc show ?thesis by simp
      qed
    qed
  qed
  finally show ?thesis .
qed

lemma isCorrect_sorted: "isCorrect ps \<longleftrightarrow> sorted (map date ps)"
  by (simp add: isCorrect_adjacent sorted_iff_nth_Suc)

lemma sorted_iff_sort_id: "sorted xs \<longleftrightarrow> xs = sort xs" for xs :: "int list"
  by (metis sorted_sort sorted_sort_id)

lemma currentLevelData_update [simp]:
  "currentLevelData (s\<lparr>timeBonus := a\<rparr>) = currentLevelData s"
  "currentLevelData (s\<lparr>alerts := b\<rparr>) = currentLevelData s"
  "currentLevelData (s\<lparr>intervals := c\<rparr>) = currentLevelData s"
  "currentLevelData (s\<lparr>photos := d\<rparr>) = currentLevelData s"
  by (simp_all add: currentLevelData_def)

lemma checkOrder_success:
  assumes "currentLevelData s = Some lv" "isCorrect (photos s)"
  shows "checkOrder s = Inr (s\<lparr>timeBonus := Math_floor (of_int (timeLeft s) * 2),
            levelScore := points lv + Math_floor (of_int (timeLeft s) * 2),
            score := score s + (points lv + Math_floor (of_int (timeLeft s) * 2)),
            intervals := (case timerInterval s of None \<Rightarrow> intervals s | Some i \<Rightarrow> removeAll i (intervals s)),
            showLevelComplete := True\<rparr>)"
  using assms by (simp add: checkOrder_def clearInterval_def Let_def split: option.splits)

lemma checkOrder_failure:
  assumes "\<not> isCorrect (photos s)"
  shows "checkOrder s = Inr (resetLevel (s\<lparr>alerts := alerts s @ [WrongOrder]\<rparr>))"
  using assms by (simp add: checkOrder_def)

lemma resetLevel_fields [simp]:
  "photos (resetLevel s) = []"
  "timeLeft (resetLevel s) = 0"
  "gameStarted (resetLevel s) = False"
  "showLevelComplete (resetLevel s) = False"
  "selectedFiles (resetLevel s) = None"
  "score (resetLevel s) = score s"
  "currentLevel (resetLevel s) = currentLevel s"
  "alerts (resetLevel s) = alerts s"
  "timerInterval (resetLevel s) = timerInterval s"
  "lastHandle (resetLevel s) = lastHandle s"
  "isLoading (resetLevel s) = isLoading s"
  "gameMode (resetLevel s) = gameMode s"
  "levelScore (resetLevel s) = levelScore s"
  "timeBonus (resetLevel s) = timeBonus s"
  by (simp_all add: resetLevel_def clearInterval_def Let_def split: option.splits)

lemma checkOrder_success_iff:
  assumes "currentLevel s < length levels"
  shows "isCorrect (photos s) \<longleftrightarrow> (\<exists>s'. checkOrder s = Inr s' \<and> showLevelComplete s')"
proof (cases "isCorrect (photos s)")
  case True
  from assms have "currentLevelData s = Some (levels ! currentLevel s)"
    by (simp add: currentLevelData_def)
  from checkOrder_success [OF this True] True show ?thesis by simp
next
  case False
  from checkOrder_failure [OF False] False show ?thesis by simp
qed

text \<open>
  Claim C1. The order check accepts a sequence exactly when every photo is dated no
  earlier than the photo before it. Hence a sequence whose dates are all equal is
  accepted; a sequence with pairwise distinct dates is accepted exactly when its dates
  are in ascending sorted order; and \<^verbatim>\<open>checkOrder\<close> takes its success branch (the
  level-complete overlay is shown) exactly when the check accepts.
\<close>

theorem checkOrder_accepts_iff_nondecreasing:
  "(isCorrect ps \<longleftrightarrow> (\<forall>i. Suc i < length ps \<longrightarrow> date (ps ! Suc i) \<ge> date (ps ! i)))
   \<and> ((\<forall>i<length ps. \<forall>j<length ps. date (ps ! i) = date (ps ! j)) \<longrightarrow> isCorrect ps)
   \<and> (distinct (map date ps) \<longrightarrow> (isCorrect ps \<longleftrightarrow> map date ps = sort (map date ps)))
   \<and> (currentLevel s < length levels \<longrightarrow>
        (isCorrect (photos s) \<longleftrightarrow> (\<exists>s'. checkOrder s = Inr s' \<and> showLevelComplete s')))"
proof (intro conjI impI)
  show "isCorrect ps \<longleftrightarrow> (\<forall>i. Suc i < length ps \<longrightarrow> date (ps ! Suc i) \<ge> date (ps ! i))"
    by (rule isCorrect_adjacent)
next
  assume eq: "\<forall>i<length ps. \<forall>j<length ps. date (ps ! i) = date (ps ! j)"
  have "date (ps ! i) \<le> date (ps ! Suc i)" if "Suc i < length ps" for i
  proof -
    from that have "i < length ps" by simp
    with eq that have "date (ps ! i) = date (ps ! Suc i)" by blast
    then show ?thesis by (rule eq_refl)
  qed
  then show "isCorrect ps"
    unfolding isCorrect_adjacent by blast
next
  show "isCorrect ps \<longleftrightarrow> map date ps = sort (map date ps)"
    unfolding isCorrect_sorted by (rule sorted_iff_sort_id)
next
  assume "currentLevel s < length levels"
  then show "isCorrect (photos s) \<longleftrightarrow> (\<exists>s'. checkOrder s = Inr s' \<and> showLevelComplete s')"
    by (rule checkOrder_success_iff)
qed

theorem checkOrder_accepts_iff_nondecreasing_witness:
  "distinct (map date [dated 1 10, dated 2 20, dated 3 30])
   \<and> isCorrect [dated 1 10, dated 2 20, dated 3 30]
   \<and> map date [dated 1 10, dated 2 20, dated 3 30] = sort (map date [dated 1 10, dated 2 20, dated 3 30])
   \<and> map date [dated 1 10, dated 2 10] = [10, 10]
   \<and> isCorrect [dated 1 10, dated 2 10]
   \<and> currentLevel playing < length levels
   \<and> \<not> isCorrect (photos playing)
   \<and> \<not> showLevelComplete (projr (checkOrder playing))"
proof -
  have d: "distinct (map date [dated 1 10, dated 2 20, dated 3 30])"
    by simp
  have e: "map date [dated 1 10, dated 2 20, dated 3 30] = sort (map date [dated 1 10, dated 2 20, dated 3 30])"
    by simp
  note a = checkOrder_accepts_iff_nondecreasing [of "[dated 1 10, dated 2 20, dated 3 30]" initial,
      THEN conjunct2, THEN conjunct2, THEN conjunct1, rule_format, OF d]
  have q: "\<forall>i<length [dated 1 10, dated 2 10]. \<forall>j<length [dated 1 10, dated 2 10].
         date ([dated 1 10, dated 2 10] ! i) = date ([dated 1 10, dated 2 10] ! j)"
    by (simp add: All_less_Suc2)
  note b = checkOrder_accepts_iff_nondecreasing [of "[dated 1 10, dated 2 10]" initial,
      THEN conjunct2, THEN conjunct1, THEN mp, OF q]
  have l: "currentLevel playing < length levels"
    by (simp add: playing_def initial_def levels_def)
  have n: "\<not> isCorrect (photos playing)"
    by (simp add: isCorrect_sorted playing_def seasonPhotos_dates)
  note c = checkOrder_accepts_iff_nondecreasing [of "[]" playing,
      THEN conjunct2, THEN conjunct2, THEN conjunct2, rule_format, OF l]
  have r: "checkOrder playing = Inr (projr (checkOrder playing))"
    by (simp add: checkOrder_failure [OF n])
  from c n r have "\<not> showLevelComplete (projr (checkOrder playing))"
    by metis
  moreover have "map date [dated 1 10, dated 2 10] = [10, 10]"
    by simp
  ultimately show ?thesis
    using a b d e l n by blast
qed

section \<open>Scoring, failure and level progression\<close>

lemma currentLevelData_in_levels:
  assumes "currentLevelData s = Some lv"
  shows "currentLevel s < length levels" and "lv = levels ! currentLevel s" and "lv \<in> set levels"
  using assms by (auto simp add: currentLevelData_def split: if_splits)

lemma Math_floor_int [simp]: "Math_floor (of_int a * 2) = a * 2"
proof -
  have "(of_int a * 2 :: rat) = of_int (a * 2)" by simp
  then show ?thesis unfolding Math_floor_def by (simp only: floor_of_int)
qed

text \<open>
  Claim C2. When the order check succeeds, the time bonus is the floor of twice the
  time left, the round score is the points of the current level plus that bonus, and
  the total score grows by the round score. With 300 points and 20 seconds left the
  bonus is 40 and the round score 340.
\<close>

theorem checkOrder_success_scoring:
  assumes "currentLevelData s = Some lv" and "isCorrect (photos s)"
  shows "\<exists>s'. checkOrder s = Inr s'
           \<and> timeBonus s' = \<lfloor>rat_of_int (timeLeft s) * 2\<rfloor>
           \<and> levelScore s' = points lv + timeBonus s'
           \<and> score s' = score s + levelScore s'
           \<and> (points lv = 300 \<and> timeLeft s = 20 \<longrightarrow> timeBonus s' = 40 \<and> levelScore s' = 340)"
proof -
  have f: "\<lfloor>rat_of_int (timeLeft s) * 2\<rfloor> = timeLeft s * 2"
    using Math_floor_int [of "timeLeft s"] by (simp add: Math_floor_def)
  show ?thesis
    unfolding checkOrder_success [OF assms] f by simp
qed

theorem checkOrder_success_scoring_witness:
  "currentLevelData (initial\<lparr>currentLevel := 2, timeLeft := 20, photos := [dated 1 10, dated 2 20]\<rparr>) = Some (levels ! 2)
   \<and> isCorrect (photos (initial\<lparr>currentLevel := 2, timeLeft := 20, photos := [dated 1 10, dated 2 20]\<rparr>))
   \<and> points (levels ! 2) = 300
   \<and> timeBonus (projr (checkOrder (initial\<lparr>currentLevel := 2, timeLeft := 20, photos := [dated 1 10, dated 2 20]\<rparr>))) = 40
   \<and> levelScore (projr (checkOrder (initial\<lparr>currentLevel := 2, timeLeft := 20, photos := [dated 1 10, dated 2 20]\<rparr>))) = 340
   \<and> score (projr (checkOrder (initial\<lparr>currentLevel := 2, timeLeft := 20, photos := [dated 1 10, dated 2 20]\<rparr>))) = 340"
proof -
  let ?s = "initial\<lparr>currentLevel := 2, timeLeft := 20, photos := [dated 1 10, dated 2 20]\<rparr>"
  have a: "currentLevelData ?s = Some (levels ! 2)"
    by (simp add: currentLevelData_def levels_def)
  have b: "isCorrect (photos ?s)"
    by (simp add: isCorrect_sorted)
  have c: "points (levels ! 2) = 300" "timeLeft ?s = 20" "score ?s = 0"
    by (simp_all add: levels_def initial_def)
  from checkOrder_success_scoring [OF a b] c a b show ?thesis
    by auto
qed

lemma intervals_resetLevel:
  "intervals (resetLevel s) =
     (if truthy (timerInterval s) then removeAll (the (timerInterval s)) (intervals s)
      else intervals s)"
  by (simp add: resetLevel_def clearInterval_def truthy_def Let_def split: option.splits)

lemma oneTimer_resetLevel:
  assumes "oneTimer s"
  shows "intervals (resetLevel s) = []"
proof (cases "intervals s = []")
  case True
  then show ?thesis by (simp add: intervals_resetLevel)
next
  case False
  then obtain h where h: "h \<in> set (intervals s)"
    by (cases "intervals s") auto
  with assms have t: "timerInterval s = Some h" "0 < h"
    by (auto simp add: oneTimer_def list_all_iff)
  from assms t have "set (intervals s) \<subseteq> {h}"
    by (auto simp add: oneTimer_def list_all_iff)
  then have "set (removeAll h (intervals s)) = {}"
    by auto
  then have "removeAll h (intervals s) = []"
    by (simp only: set_empty)
  with t show ?thesis
    by (simp add: intervals_resetLevel truthy_def)
qed

lemma oneTimer_update [simp]:
  "oneTimer (s\<lparr>alerts := a\<rparr>) = oneTimer s"
  "oneTimer (s\<lparr>photos := b\<rparr>) = oneTimer s"
  "oneTimer (s\<lparr>currentLevel := c\<rparr>) = oneTimer s"
  "oneTimer (s\<lparr>score := d\<rparr>) = oneTimer s"
  "oneTimer (s\<lparr>gameMode := e\<rparr>) = oneTimer s"
  "oneTimer (s\<lparr>gameStarted := f\<rparr>) = oneTimer s"
  "oneTimer (s\<lparr>isLoading := g\<rparr>) = oneTimer s"
  "oneTimer (s\<lparr>selectedFiles := i\<rparr>) = oneTimer s"
  by (simp_all add: oneTimer_def)

text \<open>
  Claim C6. When the order check fails, \<^verbatim>\<open>checkOrder\<close> returns with the total score
  unchanged and the round reset: no photos, the held timer handle no longer scheduled
  (no interval scheduled at all when the session had at most its own timer), no time
  left, the game not started, no selected files.
\<close>

theorem checkOrder_failure_resets_round:
  assumes "\<not> isCorrect (photos s)"
  shows "\<exists>s'. checkOrder s = Inr s'
           \<and> score s' = score s
           \<and> photos s' = []
           \<and> (\<forall>h. timerInterval s = Some h \<and> 0 < h \<longrightarrow> h \<notin> set (intervals s'))
           \<and> (oneTimer s \<longrightarrow> intervals s' = [])
           \<and> timeLeft s' = 0
           \<and> \<not> gameStarted s'
           \<and> \<not> showLevelComplete s'
           \<and> selectedFiles s' = None
           \<and> currentLevel s' = currentLevel s"
proof -
  let ?s' = "resetLevel (s\<lparr>alerts := alerts s @ [WrongOrder]\<rparr>)"
  have "checkOrder s = Inr ?s'"
    using assms by (rule checkOrder_failure)
  moreover have "\<forall>h. timerInterval s = Some h \<and> 0 < h \<longrightarrow> h \<notin> set (intervals ?s')"
    by (simp add: intervals_resetLevel truthy_def)
  moreover have "oneTimer s \<longrightarrow> intervals ?s' = []"
    by (simp add: oneTimer_resetLevel)
  ultimately show ?thesis
    by simp
qed

lemma startTimer_success:
  assumes "currentLevelData s = Some lv"
  shows "startTimer s =
     Inr (s\<lparr>intervals := Suc (lastHandle s) #
                 (if truthy (timerInterval s) then removeAll (the (timerInterval s)) (intervals s)
                  else intervals s),
             timeLeft := timeLimit lv,
             lastHandle := Suc (lastHandle s),
             timerInterval := Some (Suc (lastHandle s))\<rparr>)"
  using assms
  by (simp add: startTimer_def clearInterval_def setInterval_def currentLevelData_def truthy_def Let_def
        split: option.splits if_splits)

lemma currentLevelData_update2 [simp]:
  "currentLevelData (s\<lparr>gameMode := a\<rparr>) = currentLevelData s"
  "currentLevelData (s\<lparr>gameStarted := b\<rparr>) = currentLevelData s"
  "currentLevelData (s\<lparr>isLoading := c\<rparr>) = currentLevelData s"
  "currentLevelData (s\<lparr>selectedFiles := d\<rparr>) = currentLevelData s"
  "currentLevelData (s\<lparr>timeLeft := e\<rparr>) = currentLevelData s"
  "currentLevelData (s\<lparr>score := f\<rparr>) = currentLevelData s"
  by (simp_all add: currentLevelData_def)

lemma startSeasonMode_success:
  assumes "currentLevelData s = Some lv"
  shows "startSeasonMode s =
     Inr (s\<lparr>gameMode := Seasons, photos := seasonPhotos, gameStarted := True,
             intervals := Suc (lastHandle s) #
                 (if truthy (timerInterval s) then removeAll (the (timerInterval s)) (intervals s)
                  else intervals s),
             timeLeft := timeLimit lv,
             lastHandle := Suc (lastHandle s),
             timerInterval := Some (Suc (lastHandle s))\<rparr>)"
proof -
  have "currentLevelData (s\<lparr>gameMode := Seasons, photos := seasonPhotos, gameStarted := True\<rparr>) = Some lv"
    using assms by simp
  from startTimer_success [OF this] show ?thesis
    by (simp add: startSeasonMode_def)
qed

lemma startSeasonMode_initial: "startSeasonMode initial = Inr playing"
  unfolding startSeasonMode_success [OF initial_level]
  by (simp add: initial_def levels_def truthy_def playing_def)

theorem checkOrder_failure_resets_round_witness:
  "\<not> isCorrect (photos (projr (startSeasonMode initial)))
   \<and> oneTimer (projr (startSeasonMode initial))
   \<and> score (projr (checkOrder (projr (startSeasonMode initial)))) = score (projr (startSeasonMode initial))
   \<and> photos (projr (checkOrder (projr (startSeasonMode initial)))) = []
   \<and> intervals (projr (checkOrder (projr (startSeasonMode initial)))) = []
   \<and> \<not> gameStarted (projr (checkOrder (projr (startSeasonMode initial))))"
proof -
  have a: "\<not> isCorrect (photos playing)"
    by (simp add: isCorrect_sorted playing_def seasonPhotos_dates)
  have b: "oneTimer playing"
    by (simp add: oneTimer_def playing_def)
  from checkOrder_failure_resets_round [OF a] b
  obtain s' where "checkOrder playing = Inr s'" "score s' = score playing" "photos s' = []"
    "intervals s' = []" "\<not> gameStarted s'"
    by blast
  with a b show ?thesis
    by (simp add: startSeasonMode_initial)
qed

lemma loadPhotosForCurrentLevel_no_files:
  "selectedFiles s = None \<Longrightarrow> loadPhotosForCurrentLevel r s = Inr s"
  by (simp add: loadPhotosForCurrentLevel_def)

lemma nextLevel_advance:
  assumes "Suc (currentLevel s) < length levels"
  shows "nextLevel r s = (resetLevel (s\<lparr>currentLevel := currentLevel s + 1\<rparr>))\<lparr>showLevelComplete := False\<rparr>"
    and "nextLevel_2 s = (resetLevel (s\<lparr>currentLevel := currentLevel s + 1\<rparr>))\<lparr>showLevelComplete := False\<rparr>"
proof -
  from assms have c: "int (currentLevel s) < int (length levels) - 1"
    by simp
  show "nextLevel r s = (resetLevel (s\<lparr>currentLevel := currentLevel s + 1\<rparr>))\<lparr>showLevelComplete := False\<rparr>"
    unfolding nextLevel_def using c
    by (simp add: loadPhotosForCurrentLevel_no_files Let_def)
  show "nextLevel_2 s = (resetLevel (s\<lparr>currentLevel := currentLevel s + 1\<rparr>))\<lparr>showLevelComplete := False\<rparr>"
    unfolding nextLevel_2_def using c
    by (simp add: Let_def)
qed

lemma nextLevel_wrap:
  assumes "Suc (currentLevel s) = length levels"
  shows "nextLevel r s =
      (resetLevel (s\<lparr>alerts := alerts s @ [AllLevelsDone (score s)], currentLevel := 0, score := 0\<rparr>))\<lparr>showLevelComplete := False\<rparr>"
    and "nextLevel_2 s =
      (resetLevel (s\<lparr>alerts := alerts s @ [AllLevelsDone (score s)], currentLevel := 0, score := 0\<rparr>))\<lparr>showLevelComplete := False\<rparr>"
proof -
  from assms have c: "\<not> int (currentLevel s) < int (length levels) - 1"
    by simp
  show "nextLevel r s =
      (resetLevel (s\<lparr>alerts := alerts s @ [AllLevelsDone (score s)], currentLevel := 0, score := 0\<rparr>))\<lparr>showLevelComplete := False\<rparr>"
    unfolding nextLevel_def using c
    by (simp add: Let_def)
  show "nextLevel_2 s =
      (resetLevel (s\<lparr>alerts := alerts s @ [AllLevelsDone (score s)], currentLevel := 0, score := 0\<rparr>))\<lparr>showLevelComplete := False\<rparr>"
    unfolding nextLevel_2_def using c
    by (simp add: Let_def)
qed

text \<open>
  Claim C9. In both implementations, advancing from the last level of the table sets
  the level index and the total score to 0 and leaves no active round (no photos, game
  not started, no time left, no interval scheduled); advancing from any earlier level
  adds one to the level index and keeps the total score.
\<close>

theorem nextLevel_wraps_after_last_level:
  "(Suc (currentLevel s) = length levels \<longrightarrow>
      currentLevel (nextLevel r s) = 0 \<and> score (nextLevel r s) = 0
      \<and> photos (nextLevel r s) = [] \<and> \<not> gameStarted (nextLevel r s)
      \<and> timeLeft (nextLevel r s) = 0 \<and> \<not> showLevelComplete (nextLevel r s)
      \<and> (oneTimer s \<longrightarrow> intervals (nextLevel r s) = [])
      \<and> currentLevel (nextLevel_2 s) = 0 \<and> score (nextLevel_2 s) = 0
      \<and> photos (nextLevel_2 s) = [] \<and> \<not> gameStarted (nextLevel_2 s)
      \<and> timeLeft (nextLevel_2 s) = 0 \<and> \<not> showLevelComplete (nextLevel_2 s)
      \<and> (oneTimer s \<longrightarrow> intervals (nextLevel_2 s) = []))
   \<and> (Suc (currentLevel s) < length levels \<longrightarrow>
      currentLevel (nextLevel r s) = currentLevel s + 1 \<and> score (nextLevel r s) = score s
      \<and> currentLevel (nextLevel_2 s) = currentLevel s + 1 \<and> score (nextLevel_2 s) = score s)"
proof (intro conjI impI)
  assume a: "Suc (currentLevel s) < length levels"
  show "currentLevel (nextLevel r s) = currentLevel s + 1" "score (nextLevel r s) = score s"
    "currentLevel (nextLevel_2 s) = currentLevel s + 1" "score (nextLevel_2 s) = score s"
    by (simp_all add: nextLevel_advance [OF a])
next
  assume a: "Suc (currentLevel s) = length levels"
  show "currentLevel (nextLevel r s) = 0" "score (nextLevel r s) = 0"
    "photos (nextLevel r s) = []" "\<not> gameStarted (nextLevel r s)"
    "timeLeft (nextLevel r s) = 0" "\<not> showLevelComplete (nextLevel r s)"
    "currentLevel (nextLevel_2 s) = 0" "score (nextLevel_2 s) = 0"
    "photos (nextLevel_2 s) = []" "\<not> gameStarted (nextLevel_2 s)"
    "timeLeft (nextLevel_2 s) = 0" "\<not> showLevelComplete (nextLevel_2 s)"
    by (simp_all add: nextLevel_wrap [OF a])
  {
    assume o: "oneTimer s"
    then have "oneTimer (s\<lparr>alerts := alerts s @ [AllLevelsDone (score s)], currentLevel := 0, score := 0\<rparr>)"
      by simp
    then have e: "intervals (resetLevel (s\<lparr>alerts := alerts s @ [AllLevelsDone (score s)], currentLevel := 0, score := 0\<rparr>)) = []"
      by (rule oneTimer_resetLevel)
    show "intervals (nextLevel r s) = []"
      unfolding nextLevel_wrap [OF a] using e by simp
    show "intervals (nextLevel_2 s) = []"
      unfolding nextLevel_wrap [OF a] using e by simp
  }
qed

theorem nextLevel_wraps_after_last_level_witness:
  "Suc (currentLevel (initial\<lparr>currentLevel := 4, score := 1500, showLevelComplete := True\<rparr>)) = length levels
   \<and> currentLevel (nextLevel id (initial\<lparr>currentLevel := 4, score := 1500, showLevelComplete := True\<rparr>)) = 0
   \<and> score (nextLevel id (initial\<lparr>currentLevel := 4, score := 1500, showLevelComplete := True\<rparr>)) = 0
   \<and> score (nextLevel_2 (initial\<lparr>currentLevel := 4, score := 1500, showLevelComplete := True\<rparr>)) = 0
   \<and> Suc (currentLevel (initial\<lparr>score := 180, showLevelComplete := True\<rparr>)) < length levels
   \<and> currentLevel (nextLevel id (initial\<lparr>score := 180, showLevelComplete := True\<rparr>)) = 1
   \<and> score (nextLevel id (initial\<lparr>score := 180, showLevelComplete := True\<rparr>)) = 180
   \<and> score (nextLevel_2 (initial\<lparr>score := 180, showLevelComplete := True\<rparr>)) = 180"
proof -
  have a: "Suc (currentLevel (initial\<lparr>currentLevel := 4, score := 1500, showLevelComplete := True\<rparr>)) = length levels"
    by (simp add: levels_def)
  have b: "Suc (currentLevel (initial\<lparr>score := 180, showLevelComplete := True\<rparr>)) < length levels"
    by (simp add: levels_def initial_def)
  have c: "currentLevel (initial\<lparr>score := 180, showLevelComplete := True\<rparr>) = 0"
    "score (initial\<lparr>score := 180, showLevelComplete := True\<rparr>) = 180"
    by (simp_all add: initial_def)
  from nextLevel_wraps_after_last_level [of "initial\<lparr>currentLevel := 4, score := 1500, showLevelComplete := True\<rparr>" id,
      THEN conjunct1, rule_format, OF a]
    nextLevel_wraps_after_last_level [of "initial\<lparr>score := 180, showLevelComplete := True\<rparr>" id,
      THEN conjunct2, rule_format, OF b]
    a b c
  show ?thesis
    by simp
qed

lemma isCorrect_short: "length ps < 2 \<Longrightarrow> isCorrect ps"
  unfolding isCorrect_adjacent by simp

text \<open>
  Claim C10. The order check accepts the empty sequence and every one-photo sequence,
  so \<^verbatim>\<open>checkOrder\<close> on fewer than two photos takes the success branch and adds the
  level's points plus the time bonus. The second implementation shows the check button
  whenever there is at least one photo, also with fewer photos than the level requires,
  where the first implementation hides it.
\<close>

theorem checkOrder_accepts_fewer_than_two:
  "isCorrect [] \<and> isCorrect [p]
   \<and> (length (photos s) < 2 \<and> currentLevelData s = Some lv \<longrightarrow>
        (\<exists>s'. checkOrder s = Inr s' \<and> showLevelComplete s'
            \<and> score s' = score s + (points lv + \<lfloor>rat_of_int (timeLeft s) * 2\<rfloor>)))
   \<and> (checkButton_2 s \<longleftrightarrow> photos s \<noteq> [])
   \<and> (currentLevelData s = Some lv \<and> photos s \<noteq> [] \<and> length (photos s) < requiredPhotos lv \<longrightarrow>
        checkButton_2 s \<and> checkButton s = Some False)"
proof (intro conjI impI)
  show "isCorrect []" "isCorrect [p]"
    by (simp_all add: isCorrect_short)
  show "checkButton_2 s \<longleftrightarrow> photos s \<noteq> []"
    by (simp add: checkButton_2_def)
next
  assume a: "length (photos s) < 2 \<and> currentLevelData s = Some lv"
  then have "isCorrect (photos s)"
    by (simp add: isCorrect_short)
  with a have "checkOrder s = Inr (s\<lparr>timeBonus := Math_floor (of_int (timeLeft s) * 2),
            levelScore := points lv + Math_floor (of_int (timeLeft s) * 2),
            score := score s + (points lv + Math_floor (of_int (timeLeft s) * 2)),
            intervals := (case timerInterval s of None \<Rightarrow> intervals s | Some i \<Rightarrow> removeAll i (intervals s)),
            showLevelComplete := True\<rparr>)"
    by (simp add: checkOrder_success)
  then show "\<exists>s'. checkOrder s = Inr s' \<and> showLevelComplete s'
            \<and> score s' = score s + (points lv + \<lfloor>rat_of_int (timeLeft s) * 2\<rfloor>)"
    by (simp add: Math_floor_def)
next
  assume a: "currentLevelData s = Some lv \<and> photos s \<noteq> [] \<and> length (photos s) < requiredPhotos lv"
  then show "checkButton_2 s"
    by (simp add: checkButton_2_def)
  from a show "checkButton s = Some False"
    by (simp add: checkButton_def)
qed

theorem checkOrder_accepts_fewer_than_two_witness:
  "length (photos (initial\<lparr>photos := [dated 1 10]\<rparr>)) < 2
   \<and> currentLevelData (initial\<lparr>photos := [dated 1 10]\<rparr>) = Some (levels ! 0)
   \<and> length (photos (initial\<lparr>photos := [dated 1 10]\<rparr>)) < requiredPhotos (levels ! 0)
   \<and> checkButton_2 (initial\<lparr>photos := [dated 1 10]\<rparr>)
   \<and> checkButton (initial\<lparr>photos := [dated 1 10]\<rparr>) = Some False
   \<and> showLevelComplete (projr (checkOrder (initial\<lparr>photos := [dated 1 10]\<rparr>)))
   \<and> score (projr (checkOrder (initial\<lparr>photos := [dated 1 10]\<rparr>))) = 100"
proof -
  let ?s = "initial\<lparr>photos := [dated 1 10]\<rparr>"
  have a: "length (photos ?s) < 2 \<and> currentLevelData ?s = Some (levels ! 0)"
    by (simp add: initial_level)
  have b: "currentLevelData ?s = Some (levels ! 0) \<and> photos ?s \<noteq> [] \<and> length (photos ?s) < requiredPhotos (levels ! 0)"
    by (simp add: initial_level levels_def)
  have c: "score ?s = 0" "timeLeft ?s = 0" "points (levels ! 0) = 100"
    by (simp_all add: initial_def levels_def)
  note t = checkOrder_accepts_fewer_than_two [of "dated 1 10" ?s "levels ! 0"]
  from t [THEN conjunct2, THEN conjunct2, THEN conjunct1, rule_format, OF a]
  obtain s' where s': "checkOrder ?s = Inr s'" "showLevelComplete s'"
     "score s' = score ?s + (points (levels ! 0) + \<lfloor>rat_of_int (timeLeft ?s) * 2\<rfloor>)"
    by blast
  from s' c have "score s' = 100"
    by simp
  with s' a b t [THEN conjunct2, THEN conjunct2, THEN conjunct2, THEN conjunct2, rule_format, OF b]
  show ?thesis
    by simp
qed

section \<open>The countdown\<close>

lemma tick_countdown:
  assumes "0 < timeLeft s" and "h \<in> set (intervals s)"
  shows "tick h s = Inr (s\<lparr>timeLeft := timeLeft s - 1\<rparr>)"
  using assms by (simp add: tick_def timerCallback_def)

lemma ticks_countdown:
  assumes "h \<in> set (intervals s)" and "int n \<le> timeLeft s"
  shows "ticks h n s = Inr (s\<lparr>timeLeft := timeLeft s - int n\<rparr>)"
  using assms
proof (induction n arbitrary: s)
  case 0
  then show ?case by simp
next
  case (Suc n)
  from Suc.prems have p: "0 < timeLeft s"
    by simp
  let ?s1 = "s\<lparr>timeLeft := timeLeft s - 1\<rparr>"
  have t: "tick h s = Inr ?s1"
    using p Suc.prems(1) by (rule tick_countdown)
  have "h \<in> set (intervals ?s1)" "int n \<le> timeLeft ?s1"
    using Suc.prems by simp_all
  then have "ticks h n ?s1 = Inr (?s1\<lparr>timeLeft := timeLeft ?s1 - int n\<rparr>)"
    by (rule Suc.IH)
  with t show ?case
    by (simp add: algebra_simps)
qed

lemma ticks_cancelled:
  assumes "h \<notin> set (intervals s)"
  shows "ticks h n s = Inr s"
  using assms by (induction n) (simp_all add: tick_def)

lemma ticks_add:
  "ticks h (m + n) s = (case ticks h m s of Inl e \<Rightarrow> Inl e | Inr s' \<Rightarrow> ticks h n s')"
  by (induction m arbitrary: s) (simp_all split: sum.splits)

lemma tick_timeout:
  assumes "timeLeft s = 0" and "h \<in> set (intervals s)" and "timerInterval s = Some h"
    and "currentLevelData s = Some lv"
  shows "tick h s =
     Inr (resetLevel (s\<lparr>intervals := removeAll h (intervals s),
                          alerts := alerts s @ [TimeUp (currentLevel s) (score s)]\<rparr>))"
  using assms by (simp add: tick_def timerCallback_def showGameOver_def clearInterval_def)

lemma intervals_resetLevel_subset: "set (intervals (resetLevel s)) \<subseteq> set (intervals s)"
  by (auto simp add: intervals_resetLevel)

lemma timeouts_simps [simp]:
  "timeouts (resetLevel s) = timeouts s"
  "timeouts (s\<lparr>timeLeft := a\<rparr>) = timeouts s"
  "timeouts (s\<lparr>intervals := b\<rparr>) = timeouts s"
  "timeouts (s\<lparr>alerts := alerts s @ [TimeUp l p]\<rparr>) = Suc (timeouts s)"
  "timeouts (s\<lparr>lastHandle := c\<rparr>) = timeouts s"
  "timeouts (s\<lparr>timerInterval := d\<rparr>) = timeouts s"
  by (simp_all add: timeouts_def)

lemma levels_timeLimit_pos:
  assumes "currentLevelData s = Some lv"
  shows "0 < timeLimit lv"
proof -
  from assms have "lv \<in> set levels"
    by (rule currentLevelData_in_levels)
  then show ?thesis
    by (auto simp add: levels_def)
qed

lemma running_timer_times_out_once:
  assumes h: "h \<in> set (intervals s0)" and ti: "timerInterval s0 = Some h"
    and lv: "currentLevelData s0 = Some lv" and T: "0 \<le> timeLeft s0"
  shows "int n \<le> timeLeft s0 \<Longrightarrow> ticks h n s0 = Inr (s0\<lparr>timeLeft := timeLeft s0 - int n\<rparr>)"
    and "timeLeft s0 < int n \<Longrightarrow>
      ticks h n s0 =
        Inr (resetLevel (s0\<lparr>timeLeft := 0, intervals := removeAll h (intervals s0),
                              alerts := alerts s0 @ [TimeUp (currentLevel s0) (score s0)]\<rparr>))"
proof -
  show "ticks h n s0 = Inr (s0\<lparr>timeLeft := timeLeft s0 - int n\<rparr>)" if "int n \<le> timeLeft s0"
    using h that by (rule ticks_countdown)
next
  assume late: "timeLeft s0 < int n"
  define m where "m = nat (timeLeft s0)"
  define k where "k = n - Suc m"
  from T late have n: "n = m + Suc k" and m: "int m = timeLeft s0"
    by (simp_all add: m_def k_def)
  let ?sT = "s0\<lparr>timeLeft := 0\<rparr>"
  let ?s1 = "resetLevel (s0\<lparr>timeLeft := 0, intervals := removeAll h (intervals s0),
                              alerts := alerts s0 @ [TimeUp (currentLevel s0) (score s0)]\<rparr>)"
  have "ticks h m s0 = Inr (s0\<lparr>timeLeft := timeLeft s0 - int m\<rparr>)"
    using h m by (simp add: ticks_countdown)
  with m have a: "ticks h m s0 = Inr ?sT"
    by simp
  have "tick h ?sT =
     Inr (resetLevel (?sT\<lparr>intervals := removeAll h (intervals ?sT),
                          alerts := alerts ?sT @ [TimeUp (currentLevel ?sT) (score ?sT)]\<rparr>))"
    using h ti lv by (intro tick_timeout) simp_all
  then have b: "tick h ?sT = Inr ?s1"
    by simp
  have "set (intervals ?s1) \<subseteq> set (removeAll h (intervals s0))"
    using intervals_resetLevel_subset
      [of "s0\<lparr>timeLeft := 0, intervals := removeAll h (intervals s0),
                alerts := alerts s0 @ [TimeUp (currentLevel s0) (score s0)]\<rparr>"]
    by simp
  then have "h \<notin> set (intervals ?s1)"
    by auto
  then have c: "ticks h k ?s1 = Inr ?s1"
    by (rule ticks_cancelled)
  show "ticks h n s0 = Inr ?s1"
    unfolding n ticks_add a using b c by simp
qed

text \<open>
  Claim C5. A timer started on a level with time limit \<open>T\<close> shows \<open>T - n\<close> after
  \<open>n \<le> T\<close> ticks, so it reaches 0 after exactly \<open>T\<close> ticks, and up to then no
  time-up alert has been shown and the round is untouched. The next tick (number
  \<open>T + 1\<close>) shows the time-up alert and resets the round; after any number of ticks
  beyond \<open>T\<close> exactly one time-up alert has been shown, because the timeout clears the
  interval and later ticks find it no longer scheduled.
\<close>

theorem timer_reaches_zero_and_times_out_once:
  assumes "currentLevelData s = Some lv"
  shows "\<exists>s0 h. startTimer s = Inr s0 \<and> timerInterval s0 = Some h
           \<and> timeLeft s0 = timeLimit lv \<and> 0 < timeLimit lv
           \<and> (\<forall>n. int n \<le> timeLimit lv \<longrightarrow>
                 (\<exists>s'. ticks h n s0 = Inr s' \<and> timeLeft s' = timeLimit lv - int n
                    \<and> timeouts s' = timeouts s \<and> photos s' = photos s
                    \<and> gameStarted s' = gameStarted s \<and> h \<in> set (intervals s')))
           \<and> (\<forall>n. timeLimit lv < int n \<longrightarrow>
                 (\<exists>s'. ticks h n s0 = Inr s' \<and> timeLeft s' = 0
                    \<and> timeouts s' = Suc (timeouts s) \<and> photos s' = []
                    \<and> \<not> gameStarted s' \<and> h \<notin> set (intervals s')
                    \<and> score s' = score s))"
proof -
  define h where "h = Suc (lastHandle s)"
  define s0 where "s0 = s\<lparr>intervals := h #
                 (if truthy (timerInterval s) then removeAll (the (timerInterval s)) (intervals s)
                  else intervals s),
             timeLeft := timeLimit lv, lastHandle := h, timerInterval := Some h\<rparr>"
  have start: "startTimer s = Inr s0"
    unfolding s0_def h_def using assms by (rule startTimer_success)
  have pos: "0 < timeLimit lv"
    using assms by (rule levels_timeLimit_pos)
  have "currentLevelData s0 = currentLevelData s"
    by (simp add: s0_def currentLevelData_def)
  with assms have f: "timerInterval s0 = Some h" "timeLeft s0 = timeLimit lv"
    "h \<in> set (intervals s0)" "timeouts s0 = timeouts s" "photos s0 = photos s"
    "gameStarted s0 = gameStarted s" "score s0 = score s" "currentLevelData s0 = Some lv"
    by (simp_all add: s0_def)
  from pos f have nn: "0 \<le> timeLeft s0"
    by simp
  note run = running_timer_times_out_once [OF f(3) f(1) f(8) nn]
  have early: "\<exists>s'. ticks h n s0 = Inr s' \<and> timeLeft s' = timeLimit lv - int n
                    \<and> timeouts s' = timeouts s \<and> photos s' = photos s
                    \<and> gameStarted s' = gameStarted s \<and> h \<in> set (intervals s')"
    if "int n \<le> timeLimit lv" for n
  proof -
    from that f have "int n \<le> timeLeft s0"
      by simp
    then have "ticks h n s0 = Inr (s0\<lparr>timeLeft := timeLeft s0 - int n\<rparr>)"
      by (rule run(1))
    with f show ?thesis
      by simp
  qed
  have late: "\<exists>s'. ticks h n s0 = Inr s' \<and> timeLeft s' = 0
                    \<and> timeouts s' = Suc (timeouts s) \<and> photos s' = []
                    \<and> \<not> gameStarted s' \<and> h \<notin> set (intervals s')
                    \<and> score s' = score s"
    if "timeLimit lv < int n" for n
  proof -
    let ?s1 = "resetLevel (s0\<lparr>timeLeft := 0, intervals := removeAll h (intervals s0),
                              alerts := alerts s0 @ [TimeUp (currentLevel s0) (score s0)]\<rparr>)"
    from that f have "timeLeft s0 < int n"
      by simp
    then have r: "ticks h n s0 = Inr ?s1"
      by (rule run(2))
    have "set (intervals ?s1) \<subseteq> set (removeAll h (intervals s0))"
      using intervals_resetLevel_subset
        [of "s0\<lparr>timeLeft := 0, intervals := removeAll h (intervals s0),
                alerts := alerts s0 @ [TimeUp (currentLevel s0) (score s0)]\<rparr>"]
      by simp
    then have g: "h \<notin> set (intervals ?s1)"
      by auto
    have "timeouts ?s1 = Suc (timeouts s0)"
      by (simp add: timeouts_def)
    with r g f show ?thesis
      by simp
  qed
  from start f pos early late show ?thesis
    by blast
qed

theorem timer_reaches_zero_and_times_out_once_witness:
  "currentLevelData initial = Some (levels ! 0)
   \<and> timeLimit (levels ! 0) = 60
   \<and> timeLeft (projr (startTimer initial)) = 60
   \<and> timeLeft (projr (ticks 1 59 (projr (startTimer initial)))) = 1
   \<and> timeLeft (projr (ticks 1 60 (projr (startTimer initial)))) = 0
   \<and> timeouts (projr (ticks 1 60 (projr (startTimer initial)))) = 0
   \<and> timeouts (projr (ticks 1 61 (projr (startTimer initial)))) = 1
   \<and> timeouts (projr (ticks 1 1000 (projr (startTimer initial)))) = 1"
proof -
  have T: "timeLimit (levels ! 0) = 60"
    by (simp add: levels_def)
  from timer_reaches_zero_and_times_out_once [OF initial_level]
  obtain s0 h where start: "startTimer initial = Inr s0" and ti: "timerInterval s0 = Some h"
    and tl: "timeLeft s0 = timeLimit (levels ! 0)"
    and early: "\<And>n. int n \<le> timeLimit (levels ! 0) \<Longrightarrow>
        \<exists>s'. ticks h n s0 = Inr s' \<and> timeLeft s' = timeLimit (levels ! 0) - int n
           \<and> timeouts s' = timeouts initial"
    and late: "\<And>n. timeLimit (levels ! 0) < int n \<Longrightarrow>
        \<exists>s'. ticks h n s0 = Inr s' \<and> timeouts s' = Suc (timeouts initial)"
    by blast
  have "lastHandle initial = 0"
    by (simp add: initial_def)
  with start ti have h: "h = 1"
    unfolding startTimer_success [OF initial_level] by auto
  have z: "timeouts initial = 0"
    by (simp add: timeouts_def initial_def)
  from early [of 59] T h z obtain a where a: "ticks 1 59 s0 = Inr a" "timeLeft a = 1"
    by auto
  from early [of 60] T h z obtain b where b: "ticks 1 60 s0 = Inr b" "timeLeft b = 0" "timeouts b = 0"
    by auto
  from late [of 61] T h z obtain c where c: "ticks 1 61 s0 = Inr c" "timeouts c = 1"
    by auto
  from late [of 1000] T h z obtain d where d: "ticks 1 1000 s0 = Inr d" "timeouts d = 1"
    by auto
  from start tl T a b c d show ?thesis
    by (simp add: initial_level)
qed

section \<open>Ingestion\<close>

lemma map_filter_append: "List.map_filter f (xs @ ys) = List.map_filter f xs @ List.map_filter f ys"
  by (simp add: List.map_filter_def)

lemma batches_map_filter:
  "batches i fs acc = acc @ List.map_filter processFile (drop i fs)"
proof (induction i fs acc rule: batches.induct)
  case (1 i levelFiles acc)
  show ?case
  proof (cases "i < length levelFiles")
    case True
    have "drop (i + BATCH_SIZE) levelFiles = drop BATCH_SIZE (drop i levelFiles)"
      by (simp add: add.commute)
    then have "drop i levelFiles = take BATCH_SIZE (drop i levelFiles) @ drop (i + BATCH_SIZE) levelFiles"
      by (simp only: append_take_drop_id)
    then have "List.map_filter processFile (drop i levelFiles) =
        List.map_filter processFile (take BATCH_SIZE (drop i levelFiles))
          @ List.map_filter processFile (drop (i + BATCH_SIZE) levelFiles)"
      by (metis map_filter_append)
    with True "1.IH" show ?thesis
      by (simp del: batches.simps add: batches.simps [of i])
  next
    case False
    then show ?thesis
      by (simp add: List.map_filter_def)
  qed
qed

lemma processFiles_map_filter:
  "processFiles fs acc = acc @ List.map_filter processFile_2 fs"
  by (induction fs arbitrary: acc) (simp_all add: List.map_filter_def split: option.splits)

lemma startTimer_unfold:
  "startTimer s =
     (case currentLevelData s of
        None \<Rightarrow> Inl TypeError
      | Some lv \<Rightarrow>
          Inr (s\<lparr>intervals := Suc (lastHandle s) #
                 (if truthy (timerInterval s) then removeAll (the (timerInterval s)) (intervals s)
                  else intervals s),
             timeLeft := timeLimit lv,
             lastHandle := Suc (lastHandle s),
             timerInterval := Some (Suc (lastHandle s))\<rparr>))"
proof (cases "currentLevelData s")
  case None
  then show ?thesis
    by (simp add: startTimer_def currentLevelData_def clearInterval_def Let_def
          split: if_splits option.splits)
next
  case (Some lv)
  then show ?thesis
    by (simp add: startTimer_success)
qed

lemma handleFileSelect_result:
  assumes lv: "currentLevelData s = Some lv" and ne: "files \<noteq> []"
  shows "handleFileSelect files s =
     Inr (if length (List.map_filter processFile_2 (selectedFiles_2 lv files)) = requiredPhotos lv
             \<and> \<not> gameStarted s
          then s\<lparr>photos := List.map_filter processFile_2 (selectedFiles_2 lv files),
                 gameStarted := True,
                 intervals := Suc (lastHandle s) #
                   (if truthy (timerInterval s) then removeAll (the (timerInterval s)) (intervals s)
                    else intervals s),
                 timeLeft := timeLimit lv,
                 lastHandle := Suc (lastHandle s),
                 timerInterval := Some (Suc (lastHandle s)),
                 isLoading := False\<rparr>
          else s\<lparr>photos := List.map_filter processFile_2 (selectedFiles_2 lv files),
                 isLoading := False\<rparr>)"
  using lv ne
  by (simp add: handleFileSelect_def processFiles_map_filter startTimer_unfold Let_def)

lemma loadPhotosForCurrentLevel_result:
  assumes lv: "currentLevelData s = Some lv" and sel: "selectedFiles s = Some files"
  shows "loadPhotosForCurrentLevel r s =
     Inr (if length (List.map_filter processFile (levelFiles r lv files)) = requiredPhotos lv
             \<and> \<not> gameStarted s
          then s\<lparr>photos := List.map_filter processFile (levelFiles r lv files),
                 gameStarted := True,
                 intervals := Suc (lastHandle s) #
                   (if truthy (timerInterval s) then removeAll (the (timerInterval s)) (intervals s)
                    else intervals s),
                 timeLeft := timeLimit lv,
                 lastHandle := Suc (lastHandle s),
                 timerInterval := Some (Suc (lastHandle s)),
                 isLoading := False\<rparr>
          else s\<lparr>photos := List.map_filter processFile (levelFiles r lv files),
                 isLoading := False\<rparr>)"
  using lv sel
  by (simp add: loadPhotosForCurrentLevel_def batches_map_filter startTimer_unfold Let_def
        del: batches.simps)




lemma mset_take_subseteq: "mset (take n xs) \<subseteq># mset xs"
proof -
  have "mset xs = mset (take n xs) + mset (drop n xs)"
    by (metis append_take_drop_id mset_append)
  then show ?thesis
    by simp
qed

lemma levelFiles_permutation:
  assumes "mset (r (filter image_typed files)) = mset (filter image_typed files)"
  shows "length (levelFiles r lv files) = min (requiredPhotos lv) (length (filter image_typed files))"
    and "mset (levelFiles r lv files) \<subseteq># mset (filter image_typed files)"
    and "\<forall>f\<in>set (levelFiles r lv files). f \<in> set files \<and> image_typed f"
proof -
  from assms have "length (r (filter image_typed files)) = length (filter image_typed files)"
    by (metis size_mset)
  then show "length (levelFiles r lv files) = min (requiredPhotos lv) (length (filter image_typed files))"
    by (simp add: levelFiles_def min.commute)
  have "mset (levelFiles r lv files) \<subseteq># mset (r (filter image_typed files))"
    unfolding levelFiles_def Let_def by (rule mset_take_subseteq)
  with assms show sub: "mset (levelFiles r lv files) \<subseteq># mset (filter image_typed files)"
    by simp
  have "set (levelFiles r lv files) \<subseteq> set (filter image_typed files)"
    using set_mset_mono [OF sub] by simp
  then show "\<forall>f\<in>set (levelFiles r lv files). f \<in> set files \<and> image_typed f"
    by auto
qed

text \<open>
  Claim C7, as amended. In custom mode the second implementation processes the first
  \<^verbatim>\<open>requiredPhotos\<close> files of the batch in supplied order, whatever their type. The first
  implementation keeps the image-typed files, reorders them at random and processes the
  first \<^verbatim>\<open>requiredPhotos\<close> of the reordered list: whenever the reordering is a
  permutation, these are as many image-typed files of the batch as the level requires
  (or all of them if there are fewer), and they are the first ones in supplied order
  when the reordering happens to be the identity.
\<close>

theorem custom_mode_selection:
  "(files \<noteq> [] \<and> currentLevelData s = Some lv \<longrightarrow>
      (\<exists>s'. handleFileSelect files s = Inr s'
         \<and> photos s' = List.map_filter processFile_2 (take (requiredPhotos lv) files)))
   \<and> selectedFiles_2 lv files = take (requiredPhotos lv) files
   \<and> (selectedFiles s = Some files \<and> currentLevelData s = Some lv \<longrightarrow>
      (\<exists>s'. loadPhotosForCurrentLevel r s = Inr s'
         \<and> photos s' = List.map_filter processFile (levelFiles r lv files)))
   \<and> (mset (r (filter image_typed files)) = mset (filter image_typed files) \<longrightarrow>
        length (levelFiles r lv files) = min (requiredPhotos lv) (length (filter image_typed files))
        \<and> mset (levelFiles r lv files) \<subseteq># mset (filter image_typed files)
        \<and> (\<forall>f\<in>set (levelFiles r lv files). f \<in> set files \<and> image_typed f))
   \<and> levelFiles id lv files = take (requiredPhotos lv) (filter image_typed files)"
proof (intro conjI impI)
  assume a: "files \<noteq> [] \<and> currentLevelData s = Some lv"
  then have lv: "currentLevelData s = Some lv" and ne: "files \<noteq> []"
    by simp_all
  show "\<exists>s'. handleFileSelect files s = Inr s'
         \<and> photos s' = List.map_filter processFile_2 (take (requiredPhotos lv) files)"
    unfolding handleFileSelect_result [OF lv ne] by (simp add: selectedFiles_2_def)
next
  show "selectedFiles_2 lv files = take (requiredPhotos lv) files"
    by (simp add: selectedFiles_2_def)
next
  assume a: "selectedFiles s = Some files \<and> currentLevelData s = Some lv"
  then have lv: "currentLevelData s = Some lv" and sel: "selectedFiles s = Some files"
    by simp_all
  show "\<exists>s'. loadPhotosForCurrentLevel r s = Inr s'
         \<and> photos s' = List.map_filter processFile (levelFiles r lv files)"
    unfolding loadPhotosForCurrentLevel_result [OF lv sel] by simp
next
  assume p: "mset (r (filter image_typed files)) = mset (filter image_typed files)"
  show "length (levelFiles r lv files) = min (requiredPhotos lv) (length (filter image_typed files))"
    using p by (rule levelFiles_permutation(1))
  show "mset (levelFiles r lv files) \<subseteq># mset (filter image_typed files)"
    using p by (rule levelFiles_permutation(2))
  show "\<forall>f\<in>set (levelFiles r lv files). f \<in> set files \<and> image_typed f"
    using p by (rule levelFiles_permutation(3))
next
  show "levelFiles id lv files = take (requiredPhotos lv) (filter image_typed files)"
    by (simp add: levelFiles_def)
qed

lemma handleFolderSelect_nonempty:
  "files \<noteq> [] \<Longrightarrow>
     handleFolderSelect r files s = loadPhotosForCurrentLevel r (s\<lparr>selectedFiles := Some files\<rparr>)"
  by (simp add: handleFolderSelect_def)

theorem custom_mode_selection_witness:
  "[jpeg NoExif 1, jpeg NoExif 2, jpeg NoExif 3, jpeg NoExif 4] \<noteq> []
   \<and> currentLevelData initial = Some (levels ! 0)
   \<and> mset (rev (filter image_typed [jpeg NoExif 1, jpeg NoExif 2, jpeg NoExif 3, jpeg NoExif 4]))
        = mset (filter image_typed [jpeg NoExif 1, jpeg NoExif 2, jpeg NoExif 3, jpeg NoExif 4])
   \<and> map photo_id (photos (projr (handleFileSelect
         [jpeg NoExif 1, jpeg NoExif 2, jpeg NoExif 3, jpeg NoExif 4] initial))) = [1, 2, 3]
   \<and> length (levelFiles rev (levels ! 0)
         [jpeg NoExif 1, jpeg NoExif 2, jpeg NoExif 3, jpeg NoExif 4]) = 3
   \<and> selectedFiles (initial\<lparr>selectedFiles := Some [jpeg NoExif 1, jpeg NoExif 2, jpeg NoExif 3, jpeg NoExif 4]\<rparr>)
        = Some [jpeg NoExif 1, jpeg NoExif 2, jpeg NoExif 3, jpeg NoExif 4]
   \<and> map photo_id (photos (projr (loadPhotosForCurrentLevel rev
         (initial\<lparr>selectedFiles := Some [jpeg NoExif 1, jpeg NoExif 2, jpeg NoExif 3, jpeg NoExif 4]\<rparr>))))
        = [4, 3, 2]"
proof -
  let ?files = "[jpeg NoExif 1, jpeg NoExif 2, jpeg NoExif 3, jpeg NoExif 4]"
  let ?s1 = "initial\<lparr>selectedFiles := Some ?files\<rparr>"
  have h: "?files \<noteq> [] \<and> currentLevelData initial = Some (levels ! 0)"
    by (simp add: initial_level)
  have m: "mset (rev (filter image_typed ?files)) = mset (filter image_typed ?files)"
    by (simp only: mset_rev)
  have k: "selectedFiles ?s1 = Some ?files \<and> currentLevelData ?s1 = Some (levels ! 0)"
    by (simp add: initial_level)
  note t = custom_mode_selection [of ?files initial "levels ! 0" rev]
  from t [THEN conjunct1, rule_format, OF h]
  obtain s' where s': "handleFileSelect ?files initial = Inr s'"
      "photos s' = List.map_filter processFile_2 (take (requiredPhotos (levels ! 0)) ?files)"
    by blast
  then have a: "map photo_id (photos (projr (handleFileSelect ?files initial))) = [1, 2, 3]"
    by (simp add: level0 processFile_2_image_NoExif)
  from t [THEN conjunct2, THEN conjunct2, THEN conjunct2, THEN conjunct1, rule_format, OF m]
  have b: "length (levelFiles rev (levels ! 0) ?files) = 3"
    by (simp add: level0)
  from custom_mode_selection [of ?files ?s1 "levels ! 0" rev,
      THEN conjunct2, THEN conjunct2, THEN conjunct1, rule_format, OF k]
  obtain s'' where s'': "loadPhotosForCurrentLevel rev ?s1 = Inr s''"
      "photos s'' = List.map_filter processFile (levelFiles rev (levels ! 0) ?files)"
    by blast
  then have c: "map photo_id (photos (projr (loadPhotosForCurrentLevel rev ?s1))) = [4, 3, 2]"
    by (simp add: levelFiles_def level0 processFile_image_NoExif)
  from h m a b k c show ?thesis
    by blast
qed

text \<open>
  Claim C7 as stated fails in both implementations: the second one selects a text file
  that comes first in the batch, and the first one, with a reordering that reverses the
  list, selects the last three images.
\<close>

theorem custom_mode_selection_counterexample:
  "selectedFiles_2 (levels ! 0) [textfile 1, jpeg NoExif 2, jpeg NoExif 3, jpeg NoExif 4]
      = [textfile 1, jpeg NoExif 2, jpeg NoExif 3]
   \<and> take (requiredPhotos (levels ! 0))
        (filter image_typed [textfile 1, jpeg NoExif 2, jpeg NoExif 3, jpeg NoExif 4])
      = [jpeg NoExif 2, jpeg NoExif 3, jpeg NoExif 4]
   \<and> map photo_id (photos (projr (handleFileSelect
        [textfile 1, jpeg NoExif 2, jpeg NoExif 3, jpeg NoExif 4] initial))) = [2, 3]
   \<and> levelFiles rev (levels ! 0) [jpeg NoExif 1, jpeg NoExif 2, jpeg NoExif 3, jpeg NoExif 4]
      = [jpeg NoExif 4, jpeg NoExif 3, jpeg NoExif 2]
   \<and> take (requiredPhotos (levels ! 0))
        (filter image_typed [jpeg NoExif 1, jpeg NoExif 2, jpeg NoExif 3, jpeg NoExif 4])
      = [jpeg NoExif 1, jpeg NoExif 2, jpeg NoExif 3]
   \<and> map photo_id (photos (projr (handleFolderSelect rev
        [jpeg NoExif 1, jpeg NoExif 2, jpeg NoExif 3, jpeg NoExif 4] initial))) = [4, 3, 2]
   \<and> selectedFiles_2 (levels ! 0) [textfile 1, jpeg NoExif 2, jpeg NoExif 3, jpeg NoExif 4]
      \<noteq> take (requiredPhotos (levels ! 0))
           (filter image_typed [textfile 1, jpeg NoExif 2, jpeg NoExif 3, jpeg NoExif 4])
   \<and> levelFiles rev (levels ! 0) [jpeg NoExif 1, jpeg NoExif 2, jpeg NoExif 3, jpeg NoExif 4]
      \<noteq> take (requiredPhotos (levels ! 0))
           (filter image_typed [jpeg NoExif 1, jpeg NoExif 2, jpeg NoExif 3, jpeg NoExif 4])"
proof -
  have d: "textfile 1 \<noteq> jpeg NoExif 2"
    by (simp add: textfile_def jpeg_def)
  have lv: "currentLevelData (initial\<lparr>selectedFiles := Some [jpeg NoExif 1, jpeg NoExif 2, jpeg NoExif 3, jpeg NoExif 4]\<rparr>)
      = Some (levels ! 0)"
    by (simp add: initial_level)
  have a: "levelFiles rev (levels ! 0) [jpeg NoExif 1, jpeg NoExif 2, jpeg NoExif 3, jpeg NoExif 4]
      = [jpeg NoExif 4, jpeg NoExif 3, jpeg NoExif 2]"
    by (simp add: levelFiles_def level0)
  have "map photo_id (photos (projr (handleFileSelect
        [textfile 1, jpeg NoExif 2, jpeg NoExif 3, jpeg NoExif 4] initial))) = [2, 3]"
    by (simp add: handleFileSelect_result [OF initial_level] selectedFiles_2_def level0
          processFile_2_image_NoExif)
  moreover have "map photo_id (photos (projr (handleFolderSelect rev
        [jpeg NoExif 1, jpeg NoExif 2, jpeg NoExif 3, jpeg NoExif 4] initial))) = [4, 3, 2]"
    by (simp add: handleFolderSelect_nonempty loadPhotosForCurrentLevel_result [OF lv] a level0
          processFile_image_NoExif)
  ultimately show ?thesis
    using a d by (simp add: selectedFiles_2_def level0)
qed

lemma set_map_filter: "set (List.map_filter f xs) = {y. \<exists>x\<in>set xs. f x = Some y}"
  by (induction xs) (auto split: option.splits)

lemma processFile_cases:
  "(exifr_parse f = NoExif \<or> exifr_parse f = ExifData None) \<Longrightarrow> preview f = Some u \<Longrightarrow>
     processFile f = Some \<lparr>photo_id = fresh_id f, file = handle f, url = u, date = new_Date f,
        thumbnail = None\<rparr>"
  "exifr_parse f = ExifData (Some d) \<Longrightarrow> preview f = Some u \<Longrightarrow>
     processFile f = Some \<lparr>photo_id = fresh_id f, file = handle f, url = u, date = d,
        thumbnail = None\<rparr>"
  "exifr_parse f = ParseRejects \<Longrightarrow> processFile f = None"
  by (auto simp add: processFile_def optimizeImage_def)

lemma processFile_2_cases:
  "(exifr_parse f = NoExif \<or> exifr_parse f = ExifData None) \<Longrightarrow> preview f = Some u \<Longrightarrow>
     processFile_2 f = Some \<lparr>photo_id = fresh_id f, file = handle f, url = createObjectURL f,
        date = new_Date f, thumbnail = Some u\<rparr>"
  "exifr_parse f = ExifData (Some d) \<Longrightarrow> preview f = Some u \<Longrightarrow>
     processFile_2 f = Some \<lparr>photo_id = fresh_id f, file = handle f, url = createObjectURL f,
        date = d, thumbnail = Some u\<rparr>"
  "exifr_parse f = ParseRejects \<Longrightarrow> processFile_2 f = None"
  by (auto simp add: processFile_2_def)

lemma processFile_Some_not_rejected:
  "processFile f = Some p \<Longrightarrow> exifr_parse f \<noteq> ParseRejects \<and> photo_id p = fresh_id f"
  "processFile_2 f = Some p \<Longrightarrow> exifr_parse f \<noteq> ParseRejects \<and> photo_id p = fresh_id f"
  by (auto simp add: processFile_def optimizeImage_def processFile_2_def
        split: exif_result.splits option.splits)

text \<open>
  Claim C8, as amended. A file whose metadata extraction yields no timestamp (no EXIF
  object, or no \<^verbatim>\<open>DateTimeOriginal\<close>) gets the current wall-clock time as capture
  date, and provided its preview is produced its photo is in the result; a timestamp
  that is present is used. A file whose extraction rejects yields no photo. A rejected
  extraction does not stop the pipeline: both pipelines return with \<^verbatim>\<open>isLoading\<close>
  reset and with the photos of exactly the selected files whose processing succeeded,
  in order; among them is the photo of every selected file without timestamp whose
  preview is produced, dated with the wall-clock time, and none comes from a file whose
  extraction rejected.
\<close>

theorem missing_timestamp_falls_back_to_now:
  "((exifr_parse f = NoExif \<or> exifr_parse f = ExifData None) \<and> preview f = Some u \<longrightarrow>
      (\<exists>p. processFile f = Some p \<and> date p = new_Date f \<and> file p = handle f)
      \<and> (\<exists>p. processFile_2 f = Some p \<and> date p = new_Date f \<and> file p = handle f))
   \<and> (exifr_parse f = ExifData (Some d) \<and> preview f = Some u \<longrightarrow>
      (\<exists>p. processFile f = Some p \<and> date p = d) \<and> (\<exists>p. processFile_2 f = Some p \<and> date p = d))
   \<and> (exifr_parse f = ParseRejects \<longrightarrow> processFile f = None \<and> processFile_2 f = None)
   \<and> (files \<noteq> [] \<and> currentLevelData s = Some lv \<longrightarrow>
      (\<exists>s'. handleFileSelect files s = Inr s' \<and> \<not> isLoading s'
         \<and> photos s' = List.map_filter processFile_2 (selectedFiles_2 lv files)
         \<and> (\<forall>g\<in>set (selectedFiles_2 lv files).
               (exifr_parse g = NoExif \<or> exifr_parse g = ExifData None) \<and> preview g \<noteq> None \<longrightarrow>
               (\<exists>p\<in>set (photos s'). photo_id p = fresh_id g \<and> file p = handle g
                   \<and> date p = new_Date g))
         \<and> (\<forall>p\<in>set (photos s'). \<exists>g\<in>set (selectedFiles_2 lv files).
               exifr_parse g \<noteq> ParseRejects \<and> photo_id p = fresh_id g)))
   \<and> (selectedFiles s = Some files \<and> currentLevelData s = Some lv \<longrightarrow>
      (\<exists>s'. loadPhotosForCurrentLevel r s = Inr s' \<and> \<not> isLoading s'
         \<and> photos s' = List.map_filter processFile (levelFiles r lv files)
         \<and> (\<forall>g\<in>set (levelFiles r lv files).
               (exifr_parse g = NoExif \<or> exifr_parse g = ExifData None) \<and> preview g \<noteq> None \<longrightarrow>
               (\<exists>p\<in>set (photos s'). photo_id p = fresh_id g \<and> file p = handle g
                   \<and> date p = new_Date g))
         \<and> (\<forall>p\<in>set (photos s'). \<exists>g\<in>set (levelFiles r lv files).
               exifr_parse g \<noteq> ParseRejects \<and> photo_id p = fresh_id g)))"
proof (intro conjI impI)
  assume a: "(exifr_parse f = NoExif \<or> exifr_parse f = ExifData None) \<and> preview f = Some u"
  then show "\<exists>p. processFile f = Some p \<and> date p = new_Date f \<and> file p = handle f"
    by (simp add: processFile_cases(1) [of f u])
  from a show "\<exists>p. processFile_2 f = Some p \<and> date p = new_Date f \<and> file p = handle f"
    by (simp add: processFile_2_cases(1) [of f u])
next
  assume a: "exifr_parse f = ExifData (Some d) \<and> preview f = Some u"
  then show "\<exists>p. processFile f = Some p \<and> date p = d"
    by (simp add: processFile_cases(2) [of f d u])
  from a show "\<exists>p. processFile_2 f = Some p \<and> date p = d"
    by (simp add: processFile_2_cases(2) [of f d u])
next
  assume a: "exifr_parse f = ParseRejects"
  then show "processFile f = None" "processFile_2 f = None"
    by (simp_all add: processFile_cases(3) processFile_2_cases(3))
next
  assume a: "files \<noteq> [] \<and> currentLevelData s = Some lv"
  then have lv: "currentLevelData s = Some lv" and ne: "files \<noteq> []"
    by simp_all
  let ?ps = "List.map_filter processFile_2 (selectedFiles_2 lv files)"
  have k: "\<forall>g\<in>set (selectedFiles_2 lv files).
               (exifr_parse g = NoExif \<or> exifr_parse g = ExifData None) \<and> preview g \<noteq> None \<longrightarrow>
               (\<exists>p\<in>set ?ps. photo_id p = fresh_id g \<and> file p = handle g \<and> date p = new_Date g)"
  proof (intro ballI impI)
    fix g assume g: "g \<in> set (selectedFiles_2 lv files)"
      and n: "(exifr_parse g = NoExif \<or> exifr_parse g = ExifData None) \<and> preview g \<noteq> None"
    then obtain v where v: "preview g = Some v"
      by auto
    let ?p = "\<lparr>photo_id = fresh_id g, file = handle g, url = createObjectURL g,
        date = new_Date g, thumbnail = Some v\<rparr>"
    from n v have "processFile_2 g = Some ?p"
      by (intro processFile_2_cases(1)) simp_all
    with g have "?p \<in> set ?ps"
      unfolding set_map_filter by blast
    then show "\<exists>p\<in>set ?ps. photo_id p = fresh_id g \<and> file p = handle g \<and> date p = new_Date g"
      by (rule rev_bexI) simp
  qed
  have d: "\<forall>p\<in>set ?ps. \<exists>g\<in>set (selectedFiles_2 lv files).
               exifr_parse g \<noteq> ParseRejects \<and> photo_id p = fresh_id g"
    unfolding set_map_filter using processFile_Some_not_rejected(2) by blast
  show "\<exists>s'. handleFileSelect files s = Inr s' \<and> \<not> isLoading s'
         \<and> photos s' = ?ps
         \<and> (\<forall>g\<in>set (selectedFiles_2 lv files).
               (exifr_parse g = NoExif \<or> exifr_parse g = ExifData None) \<and> preview g \<noteq> None \<longrightarrow>
               (\<exists>p\<in>set (photos s'). photo_id p = fresh_id g \<and> file p = handle g
                   \<and> date p = new_Date g))
         \<and> (\<forall>p\<in>set (photos s'). \<exists>g\<in>set (selectedFiles_2 lv files).
               exifr_parse g \<noteq> ParseRejects \<and> photo_id p = fresh_id g)"
    unfolding handleFileSelect_result [OF lv ne] using k d by simp
next
  assume a: "selectedFiles s = Some files \<and> currentLevelData s = Some lv"
  then have lv: "currentLevelData s = Some lv" and sel: "selectedFiles s = Some files"
    by simp_all
  let ?ps = "List.map_filter processFile (levelFiles r lv files)"
  have k: "\<forall>g\<in>set (levelFiles r lv files).
               (exifr_parse g = NoExif \<or> exifr_parse g = ExifData None) \<and> preview g \<noteq> None \<longrightarrow>
               (\<exists>p\<in>set ?ps. photo_id p = fresh_id g \<and> file p = handle g \<and> date p = new_Date g)"
  proof (intro ballI impI)
    fix g assume g: "g \<in> set (levelFiles r lv files)"
      and n: "(exifr_parse g = NoExif \<or> exifr_parse g = ExifData None) \<and> preview g \<noteq> None"
    then obtain v where v: "preview g = Some v"
      by auto
    let ?p = "\<lparr>photo_id = fresh_id g, file = handle g, url = v,
        date = new_Date g, thumbnail = None\<rparr>"
    from n v have "processFile g = Some ?p"
      by (intro processFile_cases(1)) simp_all
    with g have "?p \<in> set ?ps"
      unfolding set_map_filter by blast
    then show "\<exists>p\<in>set ?ps. photo_id p = fresh_id g \<and> file p = handle g \<and> date p = new_Date g"
      by (rule rev_bexI) simp
  qed
  have d: "\<forall>p\<in>set ?ps. \<exists>g\<in>set (levelFiles r lv files).
               exifr_parse g \<noteq> ParseRejects \<and> photo_id p = fresh_id g"
    unfolding set_map_filter using processFile_Some_not_rejected(1) by blast
  show "\<exists>s'. loadPhotosForCurrentLevel r s = Inr s' \<and> \<not> isLoading s'
         \<and> photos s' = ?ps
         \<and> (\<forall>g\<in>set (levelFiles r lv files).
               (exifr_parse g = NoExif \<or> exifr_parse g = ExifData None) \<and> preview g \<noteq> None \<longrightarrow>
               (\<exists>p\<in>set (photos s'). photo_id p = fresh_id g \<and> file p = handle g
                   \<and> date p = new_Date g))
         \<and> (\<forall>p\<in>set (photos s'). \<exists>g\<in>set (levelFiles r lv files).
               exifr_parse g \<noteq> ParseRejects \<and> photo_id p = fresh_id g)"
    unfolding loadPhotosForCurrentLevel_result [OF lv sel] using k d by simp
qed

theorem missing_timestamp_falls_back_to_now_witness:
  "(exifr_parse (jpeg NoExif 1) = NoExif \<or> exifr_parse (jpeg NoExif 1) = ExifData None)
   \<and> preview (jpeg NoExif 1) = Some ''data:image/jpeg;base64,''
   \<and> date (the (processFile (jpeg NoExif 1))) = new_Date (jpeg NoExif 1)
   \<and> date (the (processFile_2 (jpeg NoExif 1))) = new_Date (jpeg NoExif 1)
   \<and> exifr_parse (jpeg (ExifData (Some 5)) 3) = ExifData (Some 5)
   \<and> preview (jpeg (ExifData (Some 5)) 3) = Some ''data:image/jpeg;base64,''
   \<and> date (the (processFile (jpeg (ExifData (Some 5)) 3))) = 5
   \<and> date (the (processFile_2 (jpeg (ExifData (Some 5)) 3))) = 5
   \<and> exifr_parse (jpeg ParseRejects 7) = ParseRejects
   \<and> processFile (jpeg ParseRejects 7) = None
   \<and> processFile_2 (jpeg ParseRejects 7) = None
   \<and> [jpeg NoExif 1, jpeg (ExifData None) 2, jpeg (ExifData (Some 5)) 3] \<noteq> []
   \<and> currentLevelData initial = Some (levels ! 0)
   \<and> map date (photos (projr (handleFileSelect
         [jpeg NoExif 1, jpeg (ExifData None) 2, jpeg (ExifData (Some 5)) 3] initial)))
       = [1700000000000, 1700000000000, 5]
   \<and> selectedFiles (initial\<lparr>selectedFiles :=
         Some [jpeg NoExif 1, jpeg (ExifData None) 2, jpeg (ExifData (Some 5)) 3]\<rparr>)
       = Some [jpeg NoExif 1, jpeg (ExifData None) 2, jpeg (ExifData (Some 5)) 3]
   \<and> map date (photos (projr (loadPhotosForCurrentLevel id (initial\<lparr>selectedFiles :=
         Some [jpeg NoExif 1, jpeg (ExifData None) 2, jpeg (ExifData (Some 5)) 3]\<rparr>))))
       = [1700000000000, 1700000000000, 5]"
proof -
  let ?files = "[jpeg NoExif 1, jpeg (ExifData None) 2, jpeg (ExifData (Some 5)) 3]"
  let ?s1 = "initial\<lparr>selectedFiles := Some ?files\<rparr>"
  let ?u = "''data:image/jpeg;base64,''"
  have a: "(exifr_parse (jpeg NoExif 1) = NoExif \<or> exifr_parse (jpeg NoExif 1) = ExifData None)
      \<and> preview (jpeg NoExif 1) = Some ?u"
    by (simp add: jpeg_def)
  have a2: "exifr_parse (jpeg (ExifData (Some 5)) 3) = ExifData (Some 5)
      \<and> preview (jpeg (ExifData (Some 5)) 3) = Some ?u"
    by (simp add: jpeg_def)
  have a3: "exifr_parse (jpeg ParseRejects 7) = ParseRejects"
    by (simp add: jpeg_def)
  have b: "?files \<noteq> [] \<and> currentLevelData initial = Some (levels ! 0)"
    by (simp add: initial_level)
  have k: "selectedFiles ?s1 = Some ?files \<and> currentLevelData ?s1 = Some (levels ! 0)"
    by (simp add: initial_level)
  note t = missing_timestamp_falls_back_to_now [of "jpeg NoExif 1" ?u 5 ?files initial "levels ! 0" id]
  from t [THEN conjunct1, rule_format, OF a]
  have c: "date (the (processFile (jpeg NoExif 1))) = new_Date (jpeg NoExif 1)"
    "date (the (processFile_2 (jpeg NoExif 1))) = new_Date (jpeg NoExif 1)"
    by auto
  from missing_timestamp_falls_back_to_now
    [of "jpeg (ExifData (Some 5)) 3" ?u 5 ?files initial "levels ! 0" id,
      THEN conjunct2, THEN conjunct1, rule_format, OF a2]
  have c2: "date (the (processFile (jpeg (ExifData (Some 5)) 3))) = 5"
    "date (the (processFile_2 (jpeg (ExifData (Some 5)) 3))) = 5"
    by auto
  from missing_timestamp_falls_back_to_now
    [of "jpeg ParseRejects 7" ?u 5 ?files initial "levels ! 0" id,
      THEN conjunct2, THEN conjunct2, THEN conjunct1, rule_format, OF a3]
  have c3: "processFile (jpeg ParseRejects 7) = None" "processFile_2 (jpeg ParseRejects 7) = None"
    by simp_all
  from t [THEN conjunct2, THEN conjunct2, THEN conjunct2, THEN conjunct1, rule_format, OF b]
  obtain s' where s': "handleFileSelect ?files initial = Inr s'"
    "photos s' = List.map_filter processFile_2 (selectedFiles_2 (levels ! 0) ?files)"
    by blast
  then have e: "map date (photos (projr (handleFileSelect ?files initial)))
       = [1700000000000, 1700000000000, 5]"
    by (simp add: selectedFiles_2_def level0 processFile_2_def jpeg_def)
  from missing_timestamp_falls_back_to_now
    [of "jpeg NoExif 1" ?u 5 ?files ?s1 "levels ! 0" id,
      THEN conjunct2, THEN conjunct2, THEN conjunct2, THEN conjunct2, rule_format, OF k]
  obtain s'' where s'': "loadPhotosForCurrentLevel id ?s1 = Inr s''"
    "photos s'' = List.map_filter processFile (levelFiles id (levels ! 0) ?files)"
    by blast
  moreover have "levelFiles id (levels ! 0) ?files = ?files"
    by (simp add: levelFiles_def level0)
  ultimately have g: "map date (photos (projr (loadPhotosForCurrentLevel id ?s1)))
       = [1700000000000, 1700000000000, 5]"
    by (simp add: processFile_def optimizeImage_def jpeg_def)
  from a c a2 c2 a3 c3 b e k g show ?thesis
    by blast
qed

text \<open>
  Claim C8 as stated fails: an image file whose extraction rejects is dropped from the
  result by both implementations, and the round does not start.
\<close>

theorem rejected_extraction_drops_photo_counterexample:
  "exifr_parse (jpeg ParseRejects 1) = ParseRejects
   \<and> image_typed (jpeg ParseRejects 1)
   \<and> preview (jpeg ParseRejects 1) = Some ''data:image/jpeg;base64,''
   \<and> processFile (jpeg ParseRejects 1) = None
   \<and> processFile_2 (jpeg ParseRejects 1) = None
   \<and> map photo_id (photos (projr (handleFileSelect
        [jpeg ParseRejects 1, jpeg NoExif 2, jpeg NoExif 3] initial))) = [2, 3]
   \<and> map photo_id (photos (projr (handleFolderSelect id
        [jpeg ParseRejects 1, jpeg NoExif 2, jpeg NoExif 3] initial))) = [2, 3]"
proof -
  have lv: "currentLevelData (initial\<lparr>selectedFiles := Some [jpeg ParseRejects 1, jpeg NoExif 2, jpeg NoExif 3]\<rparr>)
      = Some (levels ! 0)"
    by (simp add: initial_level)
  have a: "levelFiles id (levels ! 0) [jpeg ParseRejects 1, jpeg NoExif 2, jpeg NoExif 3]
      = [jpeg ParseRejects 1, jpeg NoExif 2, jpeg NoExif 3]"
    by (simp add: levelFiles_def level0)
  have "map photo_id (photos (projr (handleFileSelect
        [jpeg ParseRejects 1, jpeg NoExif 2, jpeg NoExif 3] initial))) = [2, 3]"
    by (simp add: handleFileSelect_result [OF initial_level] selectedFiles_2_def level0
          processFile_2_image_NoExif)
  moreover have "map photo_id (photos (projr (handleFolderSelect id
        [jpeg ParseRejects 1, jpeg NoExif 2, jpeg NoExif 3] initial))) = [2, 3]"
    by (simp add: handleFolderSelect_nonempty loadPhotosForCurrentLevel_result [OF lv] a
          processFile_image_NoExif)
  moreover have "exifr_parse (jpeg ParseRejects 1) = ParseRejects"
    "preview (jpeg ParseRejects 1) = Some ''data:image/jpeg;base64,''"
    by (simp_all add: jpeg_def)
  ultimately show ?thesis
    by simp
qed

section \<open>The session holds at most one timer\<close>

text \<open>
  The invariant \<^const>\<open>oneTimer\<close> holds in the initial session and is kept by every
  handler and by every tick.
\<close>

lemma oneTimer_subset:
  assumes "oneTimer s" and "set (intervals s') \<subseteq> set (intervals s)"
    and "timerInterval s' = timerInterval s"
  shows "oneTimer s'"
  using assms by (auto simp add: oneTimer_def list_all_iff)

lemma oneTimer_empty: "intervals s = [] \<Longrightarrow> oneTimer s"
  by (simp add: oneTimer_def)

lemma oneTimer_initial: "oneTimer initial"
  by (simp add: oneTimer_def initial_def)

lemma oneTimer_cleared:
  assumes "oneTimer s"
  shows "(if truthy (timerInterval s) then removeAll (the (timerInterval s)) (intervals s)
          else intervals s) = []"
  using oneTimer_resetLevel [OF assms] by (simp add: intervals_resetLevel)

lemma oneTimer_startTimer:
  assumes "oneTimer s" and "startTimer s = Inr s'"
  shows "oneTimer s'" and "intervals s' = [Suc (lastHandle s)]"
proof -
  from assms(2) obtain lv where lv: "currentLevelData s = Some lv"
    by (cases "currentLevelData s") (simp_all add: startTimer_unfold)
  from assms(2) oneTimer_cleared [OF assms(1)]
  have s': "s' = s\<lparr>intervals := [Suc (lastHandle s)], timeLeft := timeLimit lv,
      lastHandle := Suc (lastHandle s), timerInterval := Some (Suc (lastHandle s))\<rparr>"
    unfolding startTimer_success [OF lv] by simp
  then show "oneTimer s'" "intervals s' = [Suc (lastHandle s)]"
    by (simp_all add: oneTimer_def)
qed

lemma oneTimer_resetLevel_kept: "oneTimer s \<Longrightarrow> oneTimer (resetLevel s)"
  by (rule oneTimer_empty) (rule oneTimer_resetLevel)

lemma oneTimer_checkOrder:
  assumes "oneTimer s" and "checkOrder s = Inr s'"
  shows "oneTimer s'"
proof (cases "isCorrect (photos s)")
  case True
  from assms(2) True obtain lv where lv: "currentLevelData s = Some lv"
    by (cases "currentLevelData s") (simp_all add: checkOrder_def)
  from assms(2) have "set (intervals s') \<subseteq> set (intervals s)" "timerInterval s' = timerInterval s"
    unfolding checkOrder_success [OF lv True] by (auto split: option.splits)
  with assms(1) show ?thesis
    by (rule oneTimer_subset)
next
  case False
  with assms show ?thesis
    by (auto simp add: checkOrder_failure oneTimer_resetLevel_kept)
qed

lemma oneTimer_tick:
  assumes "oneTimer s" and "tick h s = Inr s'"
  shows "oneTimer s'"
proof (cases "h \<in> set (intervals s) \<and> \<not> 0 < timeLeft s")
  case False
  with assms show ?thesis
    by (auto simp add: tick_def timerCallback_def oneTimer_def split: if_splits)
next
  case True
  with assms(2) have "showGameOver (clearInterval (timerInterval s) s) = Inr s'"
    by (simp add: tick_def timerCallback_def)
  then obtain a where "s' = resetLevel ((clearInterval (timerInterval s) s)\<lparr>alerts := a\<rparr>)"
    by (auto simp add: showGameOver_def split: option.splits)
  moreover have "oneTimer (clearInterval (timerInterval s) s)"
    using assms(1) by (rule oneTimer_subset) (auto simp add: clearInterval_def split: option.splits)
  ultimately show ?thesis
    by (simp add: oneTimer_resetLevel_kept)
qed

lemma oneTimer_ingestion:
  assumes "oneTimer s"
  shows "handleFileSelect files s = Inr s' \<Longrightarrow> oneTimer s'"
    and "loadPhotosForCurrentLevel r s = Inr s' \<Longrightarrow> oneTimer s'"
    and "handleFolderSelect r files s = Inr s' \<Longrightarrow> oneTimer s'"
    and "startSeasonMode s = Inr s' \<Longrightarrow> oneTimer s'"
proof -
  have start: "oneTimer b" if "startTimer a = Inr b" "oneTimer a" for a b
    using that(2) that(1) by (rule oneTimer_startTimer(1))
  show "oneTimer s'" if "handleFileSelect files s = Inr s'"
    using that assms
    by (auto simp add: handleFileSelect_def Let_def oneTimer_def
          split: if_splits option.splits sum.splits dest!: start)
  have l: "oneTimer s'" if "loadPhotosForCurrentLevel r s = Inr s'" "oneTimer s" for s s'
    using that
    by (auto simp add: loadPhotosForCurrentLevel_def Let_def oneTimer_def
          split: if_splits option.splits sum.splits dest!: start simp del: batches.simps)
  show "oneTimer s'" if "loadPhotosForCurrentLevel r s = Inr s'"
    using that assms by (rule l)
  show "oneTimer s'" if "handleFolderSelect r files s = Inr s'"
    using that assms l [of "s\<lparr>selectedFiles := Some files\<rparr>" s']
    by (auto simp add: handleFolderSelect_def split: if_splits)
  show "oneTimer s'" if "startSeasonMode s = Inr s'"
    using that assms start [of "s\<lparr>gameMode := Seasons, photos := seasonPhotos, gameStarted := True\<rparr>" s']
    by (simp add: startSeasonMode_def)
qed

lemma oneTimer_other_handlers:
  assumes "oneTimer s"
  shows "oneTimer (nextLevel r s)" and "oneTimer (nextLevel_2 s)"
    and "oneTimer (v_model_photos newValue s)" and "oneTimer (startCustomMode s)"
proof -
  have e: "oneTimer (a\<lparr>showLevelComplete := False\<rparr>)" if "intervals a = []" for a
    using that by (simp add: oneTimer_def)
  have n: "intervals (resetLevel (s\<lparr>currentLevel := currentLevel s + 1\<rparr>)) = []"
    "intervals (resetLevel (s\<lparr>alerts := alerts s @ [AllLevelsDone (score s)], currentLevel := 0,
        score := 0\<rparr>)) = []"
    using assms by (simp_all add: oneTimer_resetLevel)
  show "oneTimer (nextLevel r s)"
    using n by (auto simp add: nextLevel_def Let_def loadPhotosForCurrentLevel_no_files intro!: e)
  show "oneTimer (nextLevel_2 s)"
    using n by (auto simp add: nextLevel_2_def Let_def intro!: e)
  show "oneTimer (v_model_photos newValue s)"
    using assms by (simp add: v_model_photos_def)
  show "oneTimer (startCustomMode s)"
    using assms by (simp add: startCustomMode_def oneTimer_resetLevel_kept)
qed

end
